theory Spec2Isabelle
  imports Main "HOL-Library.Word" "HOL-Library.Sublist"
begin

section \<open>The go-metrics to Prometheus bridge (prometheusmetrics.go)\<close>

text \<open>
  A shallow embedding of \<^verbatim>\<open>prometheusmetrics.go\<close> (the option-setter version of the
  package: \<^verbatim>\<open>NewPrometheusProvider(r, namespace, subsystem, promRegistry, setters...)\<close>).
  Go strings are byte sequences, modelled as \<open>string\<close> (a list of 8-bit characters).
  \<^verbatim>\<open>int64\<close> and \<^verbatim>\<open>time.Duration\<close> are 64-bit words read as two's complement.
\<close>

subsection \<open>Values of the language and of its library\<close>

type_synonym int64 = "64 word"

text \<open>\<^verbatim>\<open>time.Duration\<close> is an \<^verbatim>\<open>int64\<close> count of nanoseconds.\<close>

type_synonym Duration = "64 word"

definition Second :: Duration where
  "Second = 1000000000"

text \<open>
  A \<^verbatim>\<open>float64\<close> is kept as its IEEE 754 binary64 bit pattern: sign (1 bit), biased
  exponent (11 bits), fraction (52 bits). The literal \<^verbatim>\<open>0.0\<close> is the all-zero pattern.
\<close>

datatype float64 = Float64 (bits: "64 word")

fun bit_len :: "nat \<Rightarrow> nat" where
  "bit_len n = (if n = 0 then 0 else Suc (bit_len (n div 2)))"

declare bit_len.simps [simp del]

text \<open>
  The conversion \<^verbatim>\<open>float64(x)\<close> of an \<^verbatim>\<open>int64\<close>: the nearest binary64 value, ties to
  even. With \<open>e\<close> the position of the leading bit of the magnitude \<open>m\<close>, the 53-bit
  significand is \<open>m\<close> shifted to have its leading bit at position 52; bits shifted out
  are rounded. A carry out of the significand moves into the exponent field by the
  addition.
\<close>

definition float64_of_int64 :: "int64 \<Rightarrow> float64" where
  "float64_of_int64 x =
     (let v = sint x; m = nat \<bar>v\<bar> in
      if m = 0 then Float64 0
      else
        let e = bit_len m - 1;
            q = (if e \<le> 52 then m * 2 ^ (52 - e)
                 else
                   let sh = e - 52; t = m div 2 ^ sh; r = m mod 2 ^ sh; half = 2 ^ (sh - 1)
                   in if r > half \<or> (r = half \<and> odd t) then t + 1 else t);
            mag = (e + 1023) * 2 ^ 52 + (q - 2 ^ 52);
            sgn = (if v < 0 then 2 ^ 63 else 0)
        in Float64 (of_nat (sgn + mag)))"

text \<open>
  \<^verbatim>\<open>error\<close> values built by \<^verbatim>\<open>fmt.Errorf\<close> carry their message; \<^verbatim>\<open>nil\<close> is \<open>None\<close>
  of \<open>error option\<close>.
\<close>

datatype error = Error (message: string)

text \<open>
  \<^verbatim>\<open>fmt.Sprintf\<close> for the one verb this package uses, \<^verbatim>\<open>%s\<close>, with operands that
  are already formatted as strings. A \<^verbatim>\<open>%s\<close> with no operand left prints
  \<^verbatim>\<open>%!s(MISSING)\<close>; every call in the package supplies as many operands as verbs.
\<close>

fun Sprintf :: "string \<Rightarrow> string list \<Rightarrow> string" where
  "Sprintf [] args = []"
| "Sprintf [c] args = [c]"
| "Sprintf (c # d # fmt) args =
     (if c = CHR ''%'' \<and> d = CHR ''s''
      then (case args of
              [] \<Rightarrow> ''%!s(MISSING)'' @ Sprintf fmt []
            | a # as \<Rightarrow> a @ Sprintf fmt as)
      else c # Sprintf (d # fmt) args)"

definition Errorf :: "string \<Rightarrow> string list \<Rightarrow> error" where
  "Errorf fmt args = Error (Sprintf fmt args)"

subsection \<open>Metrics of the source registry (github.com/rcrowley/go-metrics)\<close>

text \<open>
  A registry entry is an \<^verbatim>\<open>interface{}\<close> value. The type switch of
  \<^verbatim>\<open>DefaultMetricConverter\<close> asks which of the go-metrics interfaces the value
  implements; they all declare \<^verbatim>\<open>Snapshot()\<close> with a different result type, so a value
  implements at most one of them and the switch is a case distinction. Each
  constructor carries what the converter reads through the interface:
  \<^verbatim>\<open>Count()\<close>, \<^verbatim>\<open>Value()\<close>, \<^verbatim>\<open>Snapshot().Sample().Values()\<close>, \<^verbatim>\<open>Snapshot().Rate1()\<close>.
  \<open>Unknown\<close> is any value implementing none of them (\<^verbatim>\<open>nil\<close> included).
\<close>

datatype metric =
    Counter int64
  | Gauge int64
  | GaugeFloat64 float64
  | Histogram "int64 list"
  | Meter float64
  | Timer float64
  | Unknown

text \<open>
  \<open>TypeOf\<close> is \<^verbatim>\<open>reflect.TypeOf(i)\<close> as \<^verbatim>\<open>%s\<close> prints it, for instance
  \<^verbatim>\<open>*metrics.StandardHistogram\<close>.
\<close>

datatype iface = Iface (TypeOf: string) (dyn: metric)

type_synonym MetricConverter = "string \<Rightarrow> iface \<Rightarrow> float64 \<times> error option"

type_synonym Normalizer = "string \<Rightarrow> string"

definition DefaultMetricConverter :: MetricConverter where
  "DefaultMetricConverter name i =
     (let unknown = (Float64 0,
            Some (Errorf ''metric '%s' has unknown type: %s'' [name, TypeOf i]))
      in case dyn i of
           Counter count \<Rightarrow> (float64_of_int64 count, None)
         | Gauge v \<Rightarrow> (float64_of_int64 v, None)
         | GaugeFloat64 v \<Rightarrow> (v, None)
         | Histogram samples \<Rightarrow>
             if length samples > 0
             then (float64_of_int64 (samples ! (length samples - 1)), None)
             else unknown
         | Meter rate1 \<Rightarrow> (rate1, None)
         | Timer rate1 \<Rightarrow> (rate1, None)
         | Unknown \<Rightarrow> unknown)"

subsection \<open>Name normalizers\<close>

text \<open>
  \<^verbatim>\<open>strings.Replace(s, old, new, -1)\<close>: every non-overlapping occurrence of \<open>old\<close>,
  found from the left, is replaced by \<open>new\<close>. The package only passes one-character
  \<open>old\<close> strings; an empty \<open>old\<close> (which Go matches between characters) is outside
  this model and leaves the string as it is.
\<close>

fun ReplaceAll :: "string \<Rightarrow> string \<Rightarrow> string \<Rightarrow> string" where
  "ReplaceAll [] old new = []"
| "ReplaceAll (c # s) old new =
     (if old \<noteq> [] \<and> prefix old (c # s)
      then new @ ReplaceAll (drop (length old) (c # s)) old new
      else c # ReplaceAll s old new)"

definition DefaultKeyNormalizer :: Normalizer where
  "DefaultKeyNormalizer key0 =
     (let key1 = ReplaceAll key0 '' '' ''_'';
          key2 = ReplaceAll key1 ''.'' ''_'';
          key3 = ReplaceAll key2 ''-'' ''_'';
          key4 = ReplaceAll key3 ''='' ''_''
      in key4)"

text \<open>
  \<^verbatim>\<open>strings.ToLower\<close>: a string of ASCII bytes only is lowered byte by byte (and
  returned as it is when it has no upper-case letter); any other string goes through
  \<^verbatim>\<open>strings.Map(unicode.ToLower, s)\<close>, which decodes UTF-8 and consults the Unicode
  case tables of the Go library. Those tables are not part of this package: the
  mapping of non-ASCII strings is the parameter \<open>unicodeLower\<close>.
\<close>

definition isASCII :: "string \<Rightarrow> bool" where
  "isASCII s = list_all (\<lambda>c. of_char c < (128 :: nat)) s"

definition isUpper :: "char \<Rightarrow> bool" where
  "isUpper c = (of_char (CHR ''A'') \<le> (of_char c :: nat) \<and> (of_char c :: nat) \<le> of_char (CHR ''Z''))"

definition lowerByte :: "char \<Rightarrow> char" where
  "lowerByte c = (if isUpper c then char_of (of_char c + (32 :: nat)) else c)"

definition ToLower :: "(string \<Rightarrow> string) \<Rightarrow> string \<Rightarrow> string" where
  "ToLower unicodeLower s =
     (if isASCII s
      then (if list_ex isUpper s then map lowerByte s else s)
      else unicodeLower s)"

definition LowerCaseKeyNormalizer :: "(string \<Rightarrow> string) \<Rightarrow> Normalizer" where
  "LowerCaseKeyNormalizer unicodeLower key = ToLower unicodeLower (DefaultKeyNormalizer key)"


subsection \<open>The external registry (github.com/prometheus/client_golang)\<close>

text \<open>
  The descriptor of a gauge, \<^verbatim>\<open>prometheus.GaugeOpts\<close>, with the four fields the package
  fills in.
\<close>

record GaugeOpts =
  opts_Namespace :: string
  opts_Subsystem :: string
  opts_Name :: string
  opts_Help :: string

text \<open>
  The identifier under which the external registry knows a gauge:
  \<^verbatim>\<open>prometheus.BuildFQName\<close> joins the non-empty ones of namespace and subsystem and
  the name with \<open>_\<close>, and gives the empty string for an empty name.
\<close>

definition BuildFQName :: "string \<Rightarrow> string \<Rightarrow> string \<Rightarrow> string" where
  "BuildFQName namespace subsystem name =
     (if name = [] then []
      else if namespace \<noteq> [] \<and> subsystem \<noteq> [] then namespace @ ''_'' @ subsystem @ ''_'' @ name
      else if namespace \<noteq> [] then namespace @ ''_'' @ name
      else if subsystem \<noteq> [] then subsystem @ ''_'' @ name
      else name)"

definition fqName :: "GaugeOpts \<Rightarrow> string" where
  "fqName opts = BuildFQName (opts_Namespace opts) (opts_Subsystem opts) (opts_Name opts)"

text \<open>
  A gauge is an object on the heap: the cache of the package and the external
  registry both hold a reference to it, and \<^verbatim>\<open>Set\<close> through one is seen through the
  other. References are addresses into a store of gauge objects.
\<close>

record PromGauge =
  desc :: GaugeOpts
  val :: float64

type_synonym addr = nat

text \<open>
  \<^verbatim>\<open>prometheus.Registerer\<close> is an interface. What an implementation holds is the gauge
  registered under each identifier (\<open>collectors\<close>). An implementation may also refuse
  a gauge for reasons of its own (the Prometheus client refuses names outside its
  identifier syntax): \<open>admits\<close> is that policy, left open.
\<close>

record Registerer =
  collectors :: "string \<rightharpoonup> addr"
  admits :: "GaugeOpts \<Rightarrow> bool"

text \<open>
  The calls the package makes on its collaborators, in order: \<^verbatim>\<open>MustRegister(g)\<close> on
  the external registry (recorded when it returns) and \<^verbatim>\<open>g.Set(v)\<close> on a gauge.
\<close>

datatype call =
    is_MustRegister: MustRegister_call (gauge_of: addr)
  | is_Set: Set_call (gauge_of: addr) (value_of: float64)

subsection \<open>The configuration and the state it lives in\<close>

text \<open>
  \<^verbatim>\<open>PrometheusConfig\<close>, field by field. A field that refers to a collaborator holds
  the collaborator's present contents: \<open>registry\<close> is what \<^verbatim>\<open>Registry.Each\<close> yields,
  pair by pair in the order it yields them; \<open>promRegistry\<close> is the external
  registry as it stands. \<open>gauges\<close> is the Go map from cache key to gauge.
\<close>

record PrometheusConfig =
  Namespace :: string
  registry :: "(string \<times> iface) list"
  Subsystem :: string
  promRegistry :: Registerer
  FlushInterval :: Duration
  gauges :: "string \<rightharpoonup> addr"
  converter :: MetricConverter
  keyNormalizer :: Normalizer

record state =
  conf :: PrometheusConfig
  heap :: "PromGauge list"
  calls :: "call list"

text \<open>
  Modelled from the spec: the external registry and its gauges, which belong to the
  Prometheus client library and not to this package. Their contract, as the
  specification gives it: the registry accepts gauge registrations, registering a gauge under an identifier already
  present fails, and a gauge is a settable value. \<^verbatim>\<open>MustRegister\<close> panics when the
  registration fails, be it for a duplicate or because the registry does not admit
  the gauge: there is no state afterwards (\<open>None\<close>). \<^verbatim>\<open>prometheus.NewGauge\<close> allocates a
  gauge with value 0.
\<close>

definition NewGauge :: "GaugeOpts \<Rightarrow> state \<Rightarrow> addr \<times> state" where
  "NewGauge opts s = (length (heap s), s\<lparr>heap := heap s @ [\<lparr>desc = opts, val = Float64 0\<rparr>]\<rparr>)"

definition MustRegister :: "addr \<Rightarrow> state \<Rightarrow> state option" where
  "MustRegister g s =
     (let c = conf s; reg = promRegistry c; opts = desc (heap s ! g); n = fqName opts in
      if \<not> admits reg opts \<or> collectors reg n \<noteq> None then None
      else Some (s\<lparr>conf := c\<lparr>promRegistry := reg\<lparr>collectors := (collectors reg)(n \<mapsto> g)\<rparr>\<rparr>,
                   calls := calls s @ [MustRegister_call g]\<rparr>))"

definition Gauge_Set :: "addr \<Rightarrow> float64 \<Rightarrow> state \<Rightarrow> state" where
  "Gauge_Set g v s =
     s\<lparr>heap := (heap s)[g := (heap s ! g)\<lparr>val := v\<rparr>], calls := calls s @ [Set_call g v]\<rparr>"

subsection \<open>Options and construction\<close>

text \<open>
  An \<^verbatim>\<open>optSetter\<close> works on the configuration through a pointer and returns an error:
  here it returns the configuration as it leaves it, and the error.
\<close>

type_synonym optSetter = "PrometheusConfig \<Rightarrow> PrometheusConfig \<times> error option"

definition Converter :: "MetricConverter \<Rightarrow> optSetter" where
  "Converter cv c = (c\<lparr>converter := cv\<rparr>, None)"

definition KeyNormalizer :: "Normalizer \<Rightarrow> optSetter" where
  "KeyNormalizer normalizer c = (c\<lparr>keyNormalizer := normalizer\<rparr>, None)"

definition FlushRate :: "Duration \<Rightarrow> optSetter" where
  "FlushRate duration c = (c\<lparr>FlushInterval := duration\<rparr>, None)"

text \<open>
  The loop over the setters in \<^verbatim>\<open>NewPrometheusProvider\<close>; the result is the pair the
  function returns, a configuration pointer (\<open>None\<close> for \<^verbatim>\<open>nil\<close>) and an error.
\<close>

fun apply_setters ::
  "optSetter list \<Rightarrow> PrometheusConfig \<Rightarrow> PrometheusConfig option \<times> error option" where
  "apply_setters [] c = (Some c, None)"
| "apply_setters (s # setters) c =
     (case s c of
        (c', Some err) \<Rightarrow> (None, Some err)
      | (c', None) \<Rightarrow> apply_setters setters c')"

definition NewPrometheusProvider ::
  "(string \<times> iface) list \<Rightarrow> string \<Rightarrow> string \<Rightarrow> Registerer \<Rightarrow> optSetter list
     \<Rightarrow> PrometheusConfig option \<times> error option" where
  "NewPrometheusProvider r namespace subsystem promReg setters =
     apply_setters setters
       \<lparr>Namespace = namespace,
        registry = r,
        Subsystem = subsystem,
        promRegistry = promReg,
        FlushInterval = 15 * Second,
        gauges = Map.empty,
        converter = DefaultMetricConverter,
        keyNormalizer = DefaultKeyNormalizer\<rparr>"

subsection \<open>Publishing\<close>

definition gaugeFromNameAndValue :: "string \<Rightarrow> float64 \<Rightarrow> state \<Rightarrow> state option" where
  "gaugeFromNameAndValue name v s =
     (let c = conf s;
          key = Sprintf ''%s_%s_%s'' [Namespace c, Subsystem c, name]
      in case gauges c key of
           Some g \<Rightarrow> Some (Gauge_Set g v s)
         | None \<Rightarrow>
             let (g, s1) = NewGauge
                   \<lparr>opts_Namespace = keyNormalizer c (Namespace c),
                    opts_Subsystem = keyNormalizer c (Subsystem c),
                    opts_Name = keyNormalizer c name,
                    opts_Help = name\<rparr> s
             in case MustRegister g s1 of
                  None \<Rightarrow> None
                | Some s2 \<Rightarrow>
                    Some (Gauge_Set g v
                            (s2\<lparr>conf := (conf s2)\<lparr>gauges := (gauges (conf s2))(key \<mapsto> g)\<rparr>\<rparr>)))"

text \<open>
  \<^verbatim>\<open>Registry.Each(f)\<close> calls \<open>f\<close> on every entry; a panic inside \<open>f\<close> ends the
  iteration with it.
\<close>

fun Each ::
  "(string \<times> iface) list \<Rightarrow> (string \<Rightarrow> iface \<Rightarrow> state \<Rightarrow> state option) \<Rightarrow> state
     \<Rightarrow> state option" where
  "Each [] f s = Some s"
| "Each ((name, i) # r) f s =
     (case f name i s of None \<Rightarrow> None | Some s' \<Rightarrow> Each r f s')"

text \<open>
  One pass. The result is the returned error and the state the pass leaves, or
  \<open>None\<close> when a registration panicked.
\<close>

definition UpdatePrometheusMetricsOnce :: "state \<Rightarrow> (error option \<times> state) option" where
  "UpdatePrometheusMetricsOnce s =
     (case Each (registry (conf s))
             (\<lambda>name i s.
                let (v, err) = converter (conf s) name i
                in if err = None then gaugeFromNameAndValue name v s else Some s)
             s of
        None \<Rightarrow> None
      | Some s' \<Rightarrow> Some (None, s'))"

text \<open>
  \<^verbatim>\<open>UpdatePrometheusMetrics\<close> runs a pass at every tick of a ticker and never
  returns. The model runs it over finitely many ticks; each tick comes with the
  contents the application has given the source registry by then. The error a
  pass returns is dropped, as in the source.
\<close>

fun UpdatePrometheusMetrics :: "(string \<times> iface) list list \<Rightarrow> state \<Rightarrow> state option" where
  "UpdatePrometheusMetrics [] s = Some s"
| "UpdatePrometheusMetrics (r # ticks) s =
     (case UpdatePrometheusMetricsOnce (s\<lparr>conf := (conf s)\<lparr>registry := r\<rparr>\<rparr>) of
        None \<Rightarrow> None
      | Some (err, s') \<Rightarrow> UpdatePrometheusMetrics ticks s')"

subsection \<open>The converter as the specification words it\<close>

text \<open>
  The reference table of the specification for the default converter, as a relation
  between a registry entry and a result \<open>r\<close> (value, error): Counter and Gauge give
  their integer as \<^verbatim>\<open>float64\<close>, GaugeFloat64 its value, a Histogram with a non-empty
  sample sequence the last sample, Meter and Timer the one-minute rate, all with no
  error; any other type gives an error with the message
  \<^verbatim>\<open>metric '<name>' has unknown type: <type-descriptor>\<close>. The table says nothing
  about a Histogram with no sample.
\<close>

definition unknown_type_message :: "string \<Rightarrow> string \<Rightarrow> string" where
  "unknown_type_message name ty =
     ''metric '' @ [CHR 0x27] @ name @ [CHR 0x27] @ '' has unknown type: '' @ ty"

definition DefaultMetricConverter_reference ::
  "string \<Rightarrow> iface \<Rightarrow> float64 \<times> error option \<Rightarrow> bool" where
  "DefaultMetricConverter_reference name i r =
     (case dyn i of
        Counter count \<Rightarrow> r = (float64_of_int64 count, None)
      | Gauge v \<Rightarrow> r = (float64_of_int64 v, None)
      | GaugeFloat64 v \<Rightarrow> r = (v, None)
      | Histogram samples \<Rightarrow>
          samples \<noteq> [] \<longrightarrow> r = (float64_of_int64 (last samples), None)
      | Meter rate1 \<Rightarrow> r = (rate1, None)
      | Timer rate1 \<Rightarrow> r = (rate1, None)
      | Unknown \<Rightarrow> snd r = Some (Error (unknown_type_message name (TypeOf i))))"

text \<open>
  What the normalizers do to single characters, and the property of the Unicode
  lower-casing of non-ASCII strings that the lower-case normalizer relies on: its
  result is a fixed point of \<^verbatim>\<open>strings.ToLower\<close>, and it brings in none of the four
  replaced characters.
\<close>

definition replaced_chars :: "char set" where
  "replaced_chars = {CHR '' '', CHR ''.'', CHR ''-'', CHR ''=''}"

definition flatten_char :: "char \<Rightarrow> char" where
  "flatten_char c = (if c \<in> replaced_chars then CHR ''_'' else c)"


subsection \<open>Notions used to state the properties\<close>

text \<open>
  The cache key of a metric name, the descriptor of the gauge made for it, the
  identifier under which that gauge reaches the external registry, and whether the
  registry as it stands would accept it.
\<close>

definition key_of :: "PrometheusConfig \<Rightarrow> string \<Rightarrow> string" where
  "key_of c name = Namespace c @ ''_'' @ Subsystem c @ ''_'' @ name"

definition gauge_opts :: "PrometheusConfig \<Rightarrow> string \<Rightarrow> GaugeOpts" where
  "gauge_opts c name =
     \<lparr>opts_Namespace = keyNormalizer c (Namespace c),
      opts_Subsystem = keyNormalizer c (Subsystem c),
      opts_Name = keyNormalizer c name,
      opts_Help = name\<rparr>"

definition external_name :: "PrometheusConfig \<Rightarrow> string \<Rightarrow> string" where
  "external_name c name = fqName (gauge_opts c name)"

definition registrable :: "PrometheusConfig \<Rightarrow> string \<Rightarrow> bool" where
  "registrable c name =
     (admits (promRegistry c) (gauge_opts c name) \<and>
      collectors (promRegistry c) (external_name c name) = None)"

text \<open>
  The entries of a registry that the configured converter converts with no error,
  each with its value, in iteration order; and the names with a cache entry.
\<close>

definition converted :: "PrometheusConfig \<Rightarrow> (string \<times> iface) list \<Rightarrow> (string \<times> float64) list" where
  "converted c r = [(n, fst (converter c n i)). (n, i) \<leftarrow> r, snd (converter c n i) = None]"

definition cached_names :: "PrometheusConfig \<Rightarrow> string set" where
  "cached_names c = {n. gauges c (key_of c n) \<noteq> None}"

text \<open>
  The names of a list that are met for the first time, given those already seen; and
  the condition under which the external registry accepts every registration a pass
  makes for them: their identifiers are pairwise distinct, and the registry admits
  each gauge and has nothing registered under its identifier.
\<close>

fun first_seen :: "string set \<Rightarrow> string list \<Rightarrow> string list" where
  "first_seen seen [] = []"
| "first_seen seen (n # ns) =
     (if n \<in> seen then first_seen seen ns else n # first_seen (insert n seen) ns)"

definition registrations_accepted :: "PrometheusConfig \<Rightarrow> string list \<Rightarrow> bool" where
  "registrations_accepted c names =
     (let new = first_seen (cached_names c) names
      in distinct (map (external_name c) new) \<and>
         (\<forall>n\<in>set new. registrable c n))"

text \<open>
  The gauge cached for a name, and the calls made between two states.
\<close>

definition handle :: "state \<Rightarrow> string \<Rightarrow> addr" where
  "handle s name = the (gauges (conf s) (key_of (conf s) name))"

definition new_calls :: "state \<Rightarrow> state \<Rightarrow> call list" where
  "new_calls s s' = drop (length (calls s)) (calls s')"

text \<open>
  How often a gauge is registered and how often it is set in a list of calls, and a
  state whose source registry has been given new contents by the application.
\<close>

definition count_MustRegister :: "addr \<Rightarrow> call list \<Rightarrow> nat" where
  "count_MustRegister g cs = length (filter (\<lambda>c. is_MustRegister c \<and> gauge_of c = g) cs)"

definition count_Set :: "addr \<Rightarrow> call list \<Rightarrow> nat" where
  "count_Set g cs = length (filter (\<lambda>c. is_Set c \<and> gauge_of c = g) cs)"

definition with_registry :: "(string \<times> iface) list \<Rightarrow> state \<Rightarrow> state" where
  "with_registry r s = s\<lparr>conf := (conf s)\<lparr>registry := r\<rparr>\<rparr>"

text \<open>
  Devices of the proofs: upserting a list of converted entries one after the other,
  the calls this is expected to make, the fields of the configuration that publishing
  leaves alone, the relation between the states before and after, and the state after
  the first upsert of a name.
\<close>

fun upsert_all :: "(string \<times> float64) list \<Rightarrow> state \<Rightarrow> state option" where
  "upsert_all [] s = Some s"
| "upsert_all ((n, v) # nvs) s =
     (case gaugeFromNameAndValue n v s of None \<Rightarrow> None | Some s' \<Rightarrow> upsert_all nvs s')"

fun expected_calls :: "(string \<Rightarrow> addr) \<Rightarrow> string set \<Rightarrow> (string \<times> float64) list \<Rightarrow> call list" where
  "expected_calls h seen [] = []"
| "expected_calls h seen ((n, v) # nvs) =
     (if n \<in> seen then Set_call (h n) v # expected_calls h seen nvs
      else MustRegister_call (h n) # Set_call (h n) v # expected_calls h (insert n seen) nvs)"

definition same_settings :: "PrometheusConfig \<Rightarrow> PrometheusConfig \<Rightarrow> bool" where
  "same_settings c c' =
     (Namespace c' = Namespace c \<and> Subsystem c' = Subsystem c \<and> converter c' = converter c \<and>
      keyNormalizer c' = keyNormalizer c \<and> registry c' = registry c \<and>
      FlushInterval c' = FlushInterval c)"

definition pass_outcome :: "state \<Rightarrow> (string \<times> float64) list \<Rightarrow> state \<Rightarrow> bool" where
  "pass_outcome s nvs s' =
     (let c = conf s; c' = conf s'; new = first_seen (cached_names c) (map fst nvs) in
        same_settings c c'
      \<and> (\<forall>k g. gauges c k = Some g \<longrightarrow> gauges c' k = Some g)
      \<and> dom (gauges c') = dom (gauges c) \<union> key_of c ` set (map fst nvs)
      \<and> calls s' = calls s @ expected_calls (handle s') (cached_names c) nvs
      \<and> map (handle s') new = [length (heap s) ..< length (heap s) + length new]
      \<and> length (heap s') = length (heap s) + length new)"

definition registered :: "string \<Rightarrow> float64 \<Rightarrow> state \<Rightarrow> state" where
  "registered n v s =
     (let c = conf s; g = length (heap s) in
      s\<lparr>conf := c\<lparr>promRegistry := (promRegistry c)
                      \<lparr>collectors := (collectors (promRegistry c))(external_name c n \<mapsto> g)\<rparr>,
                    gauges := (gauges c)(key_of c n \<mapsto> g)\<rparr>,
        heap := heap s @ [\<lparr>desc = gauge_opts c n, val = v\<rparr>],
        calls := calls s @ [MustRegister_call g, Set_call g v]\<rparr>)"

subsection \<open>Example inputs\<close>

text \<open>
  A setter that rejects the configuration; an external registry with nothing
  registered that admits every gauge; a source registry with a counter, a value of no
  metric type, an empty histogram and a gauge; a registry with two names that the
  default normalizer maps to the same identifier; and the state of a provider just
  built with namespace \<open>test\<close> and subsystem \<open>subsys\<close> over an empty external registry,
  with the default options or with the lower-case normalizer.
\<close>

definition reject_interval :: optSetter where
  "reject_interval c = (c, Some (Error ''invalid interval''))"

definition empty_registry :: Registerer where
  "empty_registry = \<lparr>collectors = Map.empty, admits = (\<lambda>opts. True)\<rparr>"

definition example_registry :: "(string \<times> iface) list" where
  "example_registry =
     [(''counter'', Iface ''*metrics.StandardCounter'' (Counter 15)),
      (''alive'', Iface ''*metrics.StandardHealthcheck'' Unknown),
      (''h'', Iface ''*metrics.StandardHistogram'' (Histogram [])),
      (''My.Gauge'', Iface ''*metrics.StandardGauge'' (Gauge 13))]"

definition colliding_registry :: "(string \<times> iface) list" where
  "colliding_registry =
     [(''a.b'', Iface ''*metrics.StandardCounter'' (Counter 1)),
      (''a-b'', Iface ''*metrics.StandardCounter'' (Counter 2))]"

definition fresh_state :: "(string \<times> iface) list \<Rightarrow> state" where
  "fresh_state r =
     \<lparr>conf = \<lparr>Namespace = ''test'', registry = r, Subsystem = ''subsys'',
              promRegistry = empty_registry, FlushInterval = 15 * Second, gauges = Map.empty,
              converter = DefaultMetricConverter, keyNormalizer = DefaultKeyNormalizer\<rparr>,
      heap = [], calls = []\<rparr>"

definition lower_case_state :: state where
  "lower_case_state =
     \<lparr>conf = \<lparr>Namespace = ''test'', registry = [], Subsystem = ''subsys'',
              promRegistry = empty_registry, FlushInterval = 15 * Second, gauges = Map.empty,
              converter = DefaultMetricConverter,
              keyNormalizer = LowerCaseKeyNormalizer (\<lambda>s. s)\<rparr>,
      heap = [], calls = []\<rparr>"

text \<open>
  Two ticks over the same two names, with other values and in another order.
\<close>

definition two_ticks :: "(string \<times> iface) list list" where
  "two_ticks =
     [[(''counter'', Iface ''*metrics.StandardCounter'' (Counter 2)),
       (''My.Gauge'', Iface ''*metrics.StandardGauge'' (Gauge 2))],
      [(''My.Gauge'', Iface ''*metrics.StandardGauge'' (Gauge 13)),
       (''counter'', Iface ''*metrics.StandardCounter'' (Counter 15))]]"

section \<open>Properties\<close>

subsection \<open>The default converter\<close>

text \<open>
  C1, as amended. A Histogram whose snapshot has no sample leaves the type switch
  without returning and reaches the final return of the function: the value 0.0
  together with the "unknown type" error, not a successful zero.
\<close>

theorem DefaultMetricConverter_empty_histogram:
  "DefaultMetricConverter name (Iface ty (Histogram [])) =
     (Float64 0, Some (Error (unknown_type_message name ty)))"
  by (simp add: DefaultMetricConverter_def Errorf_def unknown_type_message_def)

text \<open>
  C1, as stated, fails: for the empty histogram registered as \<open>h\<close> the result is not
  the pair of 0.0 and no error.
\<close>

theorem DefaultMetricConverter_empty_histogram_no_success:
  "DefaultMetricConverter ''h'' (Iface ''*metrics.StandardHistogram'' (Histogram []))
     \<noteq> (Float64 0, None)"
  by (simp add: DefaultMetricConverter_def)

text \<open>
  C3. The default converter satisfies the reference table of the specification at
  every registry entry.
\<close>

theorem DefaultMetricConverter_meets_reference:
  "DefaultMetricConverter_reference name i (DefaultMetricConverter name i)"
  by (cases "dyn i")
     (simp_all add: DefaultMetricConverter_reference_def DefaultMetricConverter_def
        Errorf_def unknown_type_message_def last_conv_nth)

theorem DefaultMetricConverter_meets_reference_witness:
  "[3, 7 :: int64] \<noteq> [] \<and>
   DefaultMetricConverter ''h'' (Iface ''*metrics.StandardHistogram'' (Histogram [3, 7]))
     = (float64_of_int64 7, None)"
  using DefaultMetricConverter_meets_reference
          [of "''h''" "Iface ''*metrics.StandardHistogram'' (Histogram [3, 7])"]
  by (simp add: DefaultMetricConverter_reference_def)

subsection \<open>The normalizers, character by character\<close>

lemma ReplaceAll_char: "ReplaceAll s [a] [b] = map (\<lambda>c. if c = a then b else c) s"
  by (induction s) auto

lemma DefaultKeyNormalizer_map: "DefaultKeyNormalizer key = map flatten_char key"
  by (simp add: DefaultKeyNormalizer_def ReplaceAll_char flatten_char_def replaced_chars_def)






lemma isASCII_flatten: "of_char (flatten_char c) < (128::nat) \<longleftrightarrow> of_char c < (128::nat)"
  by (auto simp: flatten_char_def replaced_chars_def)

lemma isASCII_DefaultKeyNormalizer: "isASCII (DefaultKeyNormalizer s) = isASCII s"
  by (simp add: DefaultKeyNormalizer_map isASCII_def list_all_iff isASCII_flatten)



lemma lowerByte_fixed: "\<not> isUpper c \<Longrightarrow> lowerByte c = c"
  by (simp add: lowerByte_def)



lemma ToLower_ascii: "isASCII s \<Longrightarrow> ToLower U s = map lowerByte s"
  by (auto simp: ToLower_def list_ex_iff lowerByte_fixed intro!: map_idI[symmetric])







text \<open>
  C7. The default normalizer maps each of space, \<open>.\<close>, \<open>-\<close> and \<open>=\<close> to \<open>_\<close> and
  keeps every other character; the lower-case normalizer is \<^verbatim>\<open>strings.ToLower\<close> of the
  default normalizer's result, which on an ASCII name lowers each letter.
\<close>

theorem normalizers_characterised:
  "DefaultKeyNormalizer key =
     map (\<lambda>c. if c \<in> {CHR '' '', CHR ''.'', CHR ''-'', CHR ''=''} then CHR ''_'' else c) key
   \<and> LowerCaseKeyNormalizer U key = ToLower U (DefaultKeyNormalizer key)
   \<and> (isASCII key \<longrightarrow>
        LowerCaseKeyNormalizer U key = map lowerByte (DefaultKeyNormalizer key))"
proof -
  have "DefaultKeyNormalizer key =
     map (\<lambda>c. if c \<in> {CHR '' '', CHR ''.'', CHR ''-'', CHR ''=''} then CHR ''_'' else c) key"
    unfolding DefaultKeyNormalizer_map
    by (rule map_cong) (simp_all add: flatten_char_def replaced_chars_def)
  moreover have "LowerCaseKeyNormalizer U key = ToLower U (DefaultKeyNormalizer key)"
    by (simp add: LowerCaseKeyNormalizer_def)
  moreover have "isASCII key \<longrightarrow>
      LowerCaseKeyNormalizer U key = map lowerByte (DefaultKeyNormalizer key)"
    by (simp add: LowerCaseKeyNormalizer_def ToLower_ascii isASCII_DefaultKeyNormalizer)
  ultimately show ?thesis by blast
qed

theorem normalizers_characterised_witness:
  "isASCII ''My Metric.A-b=C/d'' \<and>
   DefaultKeyNormalizer ''My Metric.A-b=C/d'' = ''My_Metric_A_b_C/d'' \<and>
   LowerCaseKeyNormalizer (\<lambda>s. s) ''My Metric.A-b=C/d'' = map lowerByte ''My_Metric_A_b_C/d''"
proof -
  have a: "isASCII ''My Metric.A-b=C/d''"
    by (simp add: isASCII_def)
  have d: "DefaultKeyNormalizer ''My Metric.A-b=C/d'' = ''My_Metric_A_b_C/d''"
    by (simp add: DefaultKeyNormalizer_def)
  from normalizers_characterised [of "''My Metric.A-b=C/d''" "\<lambda>s. s"] a
  have "LowerCaseKeyNormalizer (\<lambda>s. s) ''My Metric.A-b=C/d''
          = map lowerByte (DefaultKeyNormalizer ''My Metric.A-b=C/d'')"
    by blast
  with a d show ?thesis by simp
qed



subsection \<open>Construction\<close>

lemma apply_setters_closed:
  "(\<exists>c'. apply_setters ss c = (Some c', None)) \<or> (\<exists>e. apply_setters ss c = (None, Some e))"
  by (induction ss arbitrary: c) (auto split: prod.splits option.splits)

lemma apply_setters_append_ok:
  "apply_setters ss c = (Some c', None) \<Longrightarrow> apply_setters (ss @ ss') c = apply_setters ss' c'"
  by (induction ss arbitrary: c) (auto split: prod.splits option.splits)

lemma apply_setters_append_err:
  "apply_setters ss c = (None, Some e) \<Longrightarrow> apply_setters (ss @ ss') c = (None, Some e)"
  by (induction ss arbitrary: c) (auto split: prod.splits option.splits)

lemma apply_setters_keeps:
  assumes "\<forall>s\<in>set ss. \<forall>c. f (fst (s c)) = f c"
    and "apply_setters ss c = (Some c', None)"
  shows "f c' = f c"
  using assms
proof (induction ss arbitrary: c)
  case Nil
  then show ?case by simp
next
  case (Cons s ss)
  obtain c1 e1 where s: "s c = (c1, e1)" by (cases "s c")
  with Cons.prems(2) have e1: "e1 = None" and rest: "apply_setters ss c1 = (Some c', None)"
    by (auto split: option.splits)
  from Cons.prems(1) s have "f c1 = f c" by (metis fst_conv list.set_intros(1))
  moreover from Cons.IH [OF _ rest] Cons.prems(1) have "f c' = f c1" by simp
  ultimately show ?case by simp
qed

lemma apply_setters_total:
  assumes "\<forall>s\<in>set ss. \<forall>c. snd (s c) = None"
  shows "\<exists>c'. apply_setters ss c = (Some c', None)"
  using assms
proof (induction ss arbitrary: c)
  case Nil
  then show ?case by simp
next
  case (Cons s ss)
  obtain c1 e1 where s: "s c = (c1, e1)" by (cases "s c")
  with Cons.prems have "e1 = None" by (metis list.set_intros(1) snd_conv)
  with s Cons show ?case by simp
qed

text \<open>
  C9. \<^verbatim>\<open>NewPrometheusProvider\<close> applies the setters in order and fails closed. With
  no setter it returns the defaults. It returns either a configuration and no error,
  or no configuration and an error. A setter that succeeds after a successful
  prefix extends the result; one that fails after a successful prefix makes the whole
  call return no configuration and that setter's error, whatever follows; and once a
  prefix has failed, its error stays. In a returned configuration, an option that
  no setter of the list touches holds its default: 15 seconds,
  \<^verbatim>\<open>DefaultMetricConverter\<close>, \<^verbatim>\<open>DefaultKeyNormalizer\<close>.
\<close>

theorem NewPrometheusProvider_fails_closed:
  "NewPrometheusProvider r ns sub p [] =
     (Some \<lparr>Namespace = ns, registry = r, Subsystem = sub, promRegistry = p,
            FlushInterval = 15 * Second, gauges = Map.empty,
            converter = DefaultMetricConverter, keyNormalizer = DefaultKeyNormalizer\<rparr>, None)
   \<and> ((\<exists>c. NewPrometheusProvider r ns sub p ss = (Some c, None))
        \<or> (\<exists>e. NewPrometheusProvider r ns sub p ss = (None, Some e)))
   \<and> (NewPrometheusProvider r ns sub p ss = (Some c, None) \<and> s c = (c', None)
        \<longrightarrow> NewPrometheusProvider r ns sub p (ss @ [s]) = (Some c', None))
   \<and> (NewPrometheusProvider r ns sub p ss = (Some c, None) \<and> s c = (c', Some e)
        \<longrightarrow> NewPrometheusProvider r ns sub p (ss @ s # rest) = (None, Some e))
   \<and> (NewPrometheusProvider r ns sub p ss = (None, Some e)
        \<longrightarrow> NewPrometheusProvider r ns sub p (ss @ rest) = (None, Some e))
   \<and> (NewPrometheusProvider r ns sub p ss = (Some c, None) \<longrightarrow>
        ((\<forall>s\<in>set ss. \<forall>c. FlushInterval (fst (s c)) = FlushInterval c)
            \<longrightarrow> FlushInterval c = 15 * Second)
      \<and> ((\<forall>s\<in>set ss. \<forall>c. converter (fst (s c)) = converter c)
            \<longrightarrow> converter c = DefaultMetricConverter)
      \<and> ((\<forall>s\<in>set ss. \<forall>c. keyNormalizer (fst (s c)) = keyNormalizer c)
            \<longrightarrow> keyNormalizer c = DefaultKeyNormalizer))"
  unfolding NewPrometheusProvider_def
  apply (intro conjI impI)
         apply simp
        apply (rule apply_setters_closed)
       apply (simp add: apply_setters_append_ok)
      apply (simp add: apply_setters_append_ok)
     apply (simp add: apply_setters_append_err)
    apply (drule (1) apply_setters_keeps [where f = FlushInterval, rotated], simp)
   apply (drule (1) apply_setters_keeps [where f = converter, rotated], simp)
  apply (drule (1) apply_setters_keeps [where f = keyNormalizer, rotated], simp)
  done

theorem NewPrometheusProvider_fails_closed_witness:
  "NewPrometheusProvider [] ''test'' ''subsys'' empty_registry [FlushRate Second] =
     (Some \<lparr>Namespace = ''test'', registry = [], Subsystem = ''subsys'',
            promRegistry = empty_registry, FlushInterval = Second, gauges = Map.empty,
            converter = DefaultMetricConverter, keyNormalizer = DefaultKeyNormalizer\<rparr>, None)
   \<and> NewPrometheusProvider [] ''test'' ''subsys'' empty_registry
        ([FlushRate Second] @ [KeyNormalizer (LowerCaseKeyNormalizer (\<lambda>s. s))]) =
     (Some \<lparr>Namespace = ''test'', registry = [], Subsystem = ''subsys'',
            promRegistry = empty_registry, FlushInterval = Second, gauges = Map.empty,
            converter = DefaultMetricConverter,
            keyNormalizer = LowerCaseKeyNormalizer (\<lambda>s. s)\<rparr>, None)
   \<and> NewPrometheusProvider [] ''test'' ''subsys'' empty_registry
        ([FlushRate Second] @ reject_interval # [Converter (\<lambda>n i. (Float64 0, None))]) =
     (None, Some (Error ''invalid interval''))
   \<and> NewPrometheusProvider [] ''test'' ''subsys'' empty_registry
        (([FlushRate Second] @ reject_interval # []) @ [FlushRate 0]) =
     (None, Some (Error ''invalid interval''))
   \<and> list_all (\<lambda>s. \<forall>c. converter (fst (s c)) = converter c) [FlushRate Second]
   \<and> list_all (\<lambda>s. \<forall>c. keyNormalizer (fst (s c)) = keyNormalizer c) [FlushRate Second]
   \<and> converter (the (fst (NewPrometheusProvider [] ''test'' ''subsys'' empty_registry
         [FlushRate Second]))) = DefaultMetricConverter
   \<and> keyNormalizer (the (fst (NewPrometheusProvider [] ''test'' ''subsys'' empty_registry
         [FlushRate Second]))) = DefaultKeyNormalizer"
proof -
  let ?c = "\<lparr>Namespace = ''test'', registry = [], Subsystem = ''subsys'',
            promRegistry = empty_registry, FlushInterval = Second, gauges = Map.empty,
            converter = DefaultMetricConverter, keyNormalizer = DefaultKeyNormalizer\<rparr>"
  let ?N = "NewPrometheusProvider [] ''test'' ''subsys'' empty_registry"
  have base: "?N [FlushRate Second] = (Some ?c, None)"
    by (simp add: NewPrometheusProvider_def FlushRate_def)
  have ok: "KeyNormalizer (LowerCaseKeyNormalizer (\<lambda>s. s)) ?c =
      (?c\<lparr>keyNormalizer := LowerCaseKeyNormalizer (\<lambda>s. s)\<rparr>, None)"
    by (simp add: KeyNormalizer_def)
  have bad: "reject_interval ?c = (?c, Some (Error ''invalid interval''))"
    by (simp add: reject_interval_def)
  have k1: "\<forall>s\<in>set [FlushRate Second]. \<forall>c. converter (fst (s c)) = converter c"
    by (simp add: FlushRate_def)
  have k2: "\<forall>s\<in>set [FlushRate Second]. \<forall>c. keyNormalizer (fst (s c)) = keyNormalizer c"
    by (simp add: FlushRate_def)
  have 1: "?N ([FlushRate Second] @ [KeyNormalizer (LowerCaseKeyNormalizer (\<lambda>s. s))]) =
      (Some (?c\<lparr>keyNormalizer := LowerCaseKeyNormalizer (\<lambda>s. s)\<rparr>), None)"
    using NewPrometheusProvider_fails_closed
      [where r = "[]" and ns = "''test''" and sub = "''subsys''" and p = empty_registry
         and ss = "[FlushRate Second]" and c = ?c
         and s = "KeyNormalizer (LowerCaseKeyNormalizer (\<lambda>s. s))"
         and c' = "?c\<lparr>keyNormalizer := LowerCaseKeyNormalizer (\<lambda>s. s)\<rparr>"]
      base ok by blast
  have 2: "?N ([FlushRate Second] @ reject_interval # [Converter (\<lambda>n i. (Float64 0, None))]) =
      (None, Some (Error ''invalid interval''))"
    using NewPrometheusProvider_fails_closed
      [where r = "[]" and ns = "''test''" and sub = "''subsys''" and p = empty_registry
         and ss = "[FlushRate Second]" and c = ?c and s = reject_interval and c' = ?c
         and e = "Error ''invalid interval''"
         and rest = "[Converter (\<lambda>n i. (Float64 0, None))]"]
      base bad by blast
  have 3: "?N (([FlushRate Second] @ reject_interval # []) @ [FlushRate 0]) =
      (None, Some (Error ''invalid interval''))"
    using NewPrometheusProvider_fails_closed
      [where r = "[]" and ns = "''test''" and sub = "''subsys''" and p = empty_registry
         and ss = "[FlushRate Second] @ reject_interval # []"
         and e = "Error ''invalid interval''" and rest = "[FlushRate 0]"]
    by (simp add: NewPrometheusProvider_def FlushRate_def reject_interval_def)
  have 4: "converter ?c = DefaultMetricConverter \<and> keyNormalizer ?c = DefaultKeyNormalizer"
    using NewPrometheusProvider_fails_closed
      [where r = "[]" and ns = "''test''" and sub = "''subsys''" and p = empty_registry
         and ss = "[FlushRate Second]" and c = ?c]
      base k1 k2 by blast
  from base 1 2 3 4 k1 k2 show ?thesis by simp
qed

text \<open>
  C10. Each of \<^verbatim>\<open>Converter\<close>, \<^verbatim>\<open>KeyNormalizer\<close> and \<^verbatim>\<open>FlushRate\<close> returns no error
  whatever its argument and whatever the configuration, \<^verbatim>\<open>FlushRate\<close> for zero and
  negative durations too; and \<^verbatim>\<open>NewPrometheusProvider\<close> over any list of setters
  that never return an error returns a configuration and no error.
\<close>

theorem shipped_setters_never_fail:
  "snd (Converter cv c) = None \<and> snd (KeyNormalizer n c) = None \<and> snd (FlushRate d c) = None
   \<and> ((\<forall>s\<in>set ss. \<forall>c. snd (s c) = None) \<longrightarrow>
        (\<exists>c'. NewPrometheusProvider r ns sub p ss = (Some c', None)))"
  by (simp add: Converter_def KeyNormalizer_def FlushRate_def NewPrometheusProvider_def
        apply_setters_total)

theorem shipped_setters_never_fail_witness:
  "list_all (\<lambda>s. \<forall>c. snd (s c) = None)
      [FlushRate 0, FlushRate (- 1), Converter (\<lambda>n i. (Float64 0, None)),
       KeyNormalizer (LowerCaseKeyNormalizer (\<lambda>s. s))]
   \<and> sint (- 1 :: Duration) < 0
   \<and> snd (NewPrometheusProvider [] ''test'' ''subsys'' empty_registry
        [FlushRate 0, FlushRate (- 1), Converter (\<lambda>n i. (Float64 0, None)),
         KeyNormalizer (LowerCaseKeyNormalizer (\<lambda>s. s))]) = None"
proof -
  have h: "\<forall>s\<in>set [FlushRate 0, FlushRate (- 1), Converter (\<lambda>n i. (Float64 0, None)),
               KeyNormalizer (LowerCaseKeyNormalizer (\<lambda>s. s))]. \<forall>c. snd (s c) = None"
    by (simp add: FlushRate_def Converter_def KeyNormalizer_def)
  from shipped_setters_never_fail
    [where ss = "[FlushRate 0, FlushRate (- 1), Converter (\<lambda>n i. (Float64 0, None)),
               KeyNormalizer (LowerCaseKeyNormalizer (\<lambda>s. s))]"
       and r = "[]" and ns = "''test''" and sub = "''subsys''" and p = empty_registry] h
  have "\<exists>c'. NewPrometheusProvider [] ''test'' ''subsys'' empty_registry
        [FlushRate 0, FlushRate (- 1), Converter (\<lambda>n i. (Float64 0, None)),
         KeyNormalizer (LowerCaseKeyNormalizer (\<lambda>s. s))] = (Some c', None)"
    by blast
  then have "snd (NewPrometheusProvider [] ''test'' ''subsys'' empty_registry
        [FlushRate 0, FlushRate (- 1), Converter (\<lambda>n i. (Float64 0, None)),
         KeyNormalizer (LowerCaseKeyNormalizer (\<lambda>s. s))]) = None"
    by auto
  with h show ?thesis by simp
qed

subsection \<open>One upsert\<close>

lemma key_of_inj [simp]: "key_of c m = key_of c n \<longleftrightarrow> m = n"
  by (simp add: key_of_def)

lemma Sprintf_key_of: "Sprintf ''%s_%s_%s'' [Namespace c, Subsystem c, name] = key_of c name"
  by (simp add: key_of_def)

lemma gaugeFromNameAndValue_hit:
  "gauges (conf s) (key_of (conf s) n) = Some g \<Longrightarrow>
     gaugeFromNameAndValue n v s = Some (Gauge_Set g v s)"
  by (simp add: gaugeFromNameAndValue_def Sprintf_key_of del: Sprintf.simps)

lemma gaugeFromNameAndValue_miss:
  "gauges (conf s) (key_of (conf s) n) = None \<Longrightarrow>
     gaugeFromNameAndValue n v s =
       (if registrable (conf s) n then Some (registered n v s) else None)"
  by (simp add: gaugeFromNameAndValue_def Sprintf_key_of external_name_def gauge_opts_def
        registrable_def Let_def NewGauge_def MustRegister_def Gauge_Set_def registered_def
        del: Sprintf.simps)

lemma lower_case_names:
  "LowerCaseKeyNormalizer (\<lambda>s. s) ''test'' = ''test''"
  "LowerCaseKeyNormalizer (\<lambda>s. s) ''subsys'' = ''subsys''"
  "LowerCaseKeyNormalizer (\<lambda>s. s) ''Counter'' = ''counter''"
  by code_simp+

lemma lower_case_upsert:
  "gaugeFromNameAndValue ''Counter'' v lower_case_state =
     Some \<lparr>conf = \<lparr>Namespace = ''test'', registry = [], Subsystem = ''subsys'',
                   promRegistry = \<lparr>collectors = [''test_subsys_counter'' \<mapsto> 0],
                                     admits = (\<lambda>opts. True)\<rparr>,
                   FlushInterval = 15 * Second,
                   gauges = [''test_subsys_Counter'' \<mapsto> 0],
                   converter = DefaultMetricConverter,
                   keyNormalizer = LowerCaseKeyNormalizer (\<lambda>s. s)\<rparr>,
           heap = [\<lparr>desc = \<lparr>opts_Namespace = ''test'', opts_Subsystem = ''subsys'',
                            opts_Name = ''counter'', opts_Help = ''Counter''\<rparr>, val = v\<rparr>],
           calls = [MustRegister_call 0, Set_call 0 v]\<rparr>"
  by (simp add: lower_case_state_def gaugeFromNameAndValue_def NewGauge_def MustRegister_def
        Gauge_Set_def fqName_def BuildFQName_def lower_case_names empty_registry_def Let_def)

text \<open>
  C5. An upsert that returns has looked up and filled the cache under the key
  \<open>namespace @ ''_'' @ subsystem @ ''_'' @ name\<close>, built from the raw components:
  afterwards this key has an entry, every other key is as before, and a gauge found
  under this key is the one that is set. The normalizer of the configuration plays
  no part in the key.
\<close>

theorem gaugeFromNameAndValue_cache_key:
  "gaugeFromNameAndValue name v s = Some s' \<Longrightarrow>
     gauges (conf s') (Namespace (conf s) @ ''_'' @ Subsystem (conf s) @ ''_'' @ name) \<noteq> None
     \<and> (\<forall>k. k \<noteq> Namespace (conf s) @ ''_'' @ Subsystem (conf s) @ ''_'' @ name
            \<longrightarrow> gauges (conf s') k = gauges (conf s) k)
     \<and> (\<forall>g. gauges (conf s) (Namespace (conf s) @ ''_'' @ Subsystem (conf s) @ ''_'' @ name)
                = Some g \<longrightarrow> s' = Gauge_Set g v s)"
  by (auto simp: gaugeFromNameAndValue_def Let_def NewGauge_def MustRegister_def Gauge_Set_def
        split: option.splits if_splits)

theorem gaugeFromNameAndValue_cache_key_witness:
  "gaugeFromNameAndValue ''Counter'' (Float64 0) lower_case_state \<noteq> None
   \<and> gauges (conf (the (gaugeFromNameAndValue ''Counter'' (Float64 0) lower_case_state)))
        ''test_subsys_Counter'' \<noteq> None
   \<and> gauges (conf (the (gaugeFromNameAndValue ''Counter'' (Float64 0) lower_case_state)))
        ''test_subsys_counter'' = None"
proof -
  obtain s' where s': "gaugeFromNameAndValue ''Counter'' (Float64 0) lower_case_state = Some s'"
    using lower_case_upsert by blast
  have c: "Namespace (conf lower_case_state) = ''test''"
    "Subsystem (conf lower_case_state) = ''subsys''"
    "gauges (conf lower_case_state) = Map.empty"
    by (simp_all add: lower_case_state_def)
  from gaugeFromNameAndValue_cache_key [OF s']
  have "gauges (conf s') ''test_subsys_Counter'' \<noteq> None"
    and "gauges (conf s') ''test_subsys_counter'' = None"
    by (simp_all add: c)
  with s' show ?thesis by simp
qed

text \<open>
  C6. When the key has no cache entry and the upsert returns, the gauge it has
  created and registered has the normalizer's image of the namespace, of the
  subsystem and of the name as its \<open>Namespace\<close>, \<open>Subsystem\<close> and \<open>Name\<close>, and the raw
  name as its \<open>Help\<close>; it is cached under the key, registered under its identifier,
  and set to the value.
\<close>

theorem gaugeFromNameAndValue_first_sight:
  "gauges (conf s) (Namespace (conf s) @ ''_'' @ Subsystem (conf s) @ ''_'' @ name) = None \<Longrightarrow>
   gaugeFromNameAndValue name v s = Some s' \<Longrightarrow>
     (let c = conf s;
          g = length (heap s);
          opts = \<lparr>opts_Namespace = keyNormalizer c (Namespace c),
                  opts_Subsystem = keyNormalizer c (Subsystem c),
                  opts_Name = keyNormalizer c name,
                  opts_Help = name\<rparr>
      in gauges (conf s') (Namespace c @ ''_'' @ Subsystem c @ ''_'' @ name) = Some g
         \<and> heap s' = heap s @ [\<lparr>desc = opts, val = v\<rparr>]
         \<and> promRegistry (conf s') =
             (promRegistry c)\<lparr>collectors := (collectors (promRegistry c))(fqName opts \<mapsto> g)\<rparr>
         \<and> calls s' = calls s @ [MustRegister_call g, Set_call g v])"
  by (auto simp: gaugeFromNameAndValue_def Let_def NewGauge_def MustRegister_def Gauge_Set_def
        split: option.splits if_splits)

theorem gaugeFromNameAndValue_first_sight_witness:
  "gauges (conf lower_case_state) ''test_subsys_Counter'' = None
   \<and> gaugeFromNameAndValue ''Counter'' (Float64 0) lower_case_state \<noteq> None
   \<and> heap (the (gaugeFromNameAndValue ''Counter'' (Float64 0) lower_case_state)) =
        [\<lparr>desc = \<lparr>opts_Namespace = ''test'', opts_Subsystem = ''subsys'',
                  opts_Name = ''counter'', opts_Help = ''Counter''\<rparr>, val = Float64 0\<rparr>]
   \<and> calls (the (gaugeFromNameAndValue ''Counter'' (Float64 0) lower_case_state)) =
        [MustRegister_call 0, Set_call 0 (Float64 0)]"
proof -
  obtain s' where s': "gaugeFromNameAndValue ''Counter'' (Float64 0) lower_case_state = Some s'"
    using lower_case_upsert by blast
  have c: "Namespace (conf lower_case_state) = ''test''"
    "Subsystem (conf lower_case_state) = ''subsys''"
    "gauges (conf lower_case_state) = Map.empty"
    "keyNormalizer (conf lower_case_state) = LowerCaseKeyNormalizer (\<lambda>s. s)"
    "heap lower_case_state = []" "calls lower_case_state = []"
    by (simp_all add: lower_case_state_def)
  have miss: "gauges (conf lower_case_state)
      (Namespace (conf lower_case_state) @ ''_'' @ Subsystem (conf lower_case_state) @ ''_'' @ ''Counter'')
        = None"
    by (simp add: c)
  from gaugeFromNameAndValue_first_sight [OF miss s']
  have "heap s' = [\<lparr>desc = \<lparr>opts_Namespace = ''test'', opts_Subsystem = ''subsys'',
                  opts_Name = ''counter'', opts_Help = ''Counter''\<rparr>, val = Float64 0\<rparr>]"
    and "calls s' = [MustRegister_call 0, Set_call 0 (Float64 0)]"
    by (simp_all add: c Let_def lower_case_names)
  with s' c(3) show ?thesis by simp
qed

subsection \<open>One pass\<close>

lemma pass_outcome_Nil: "pass_outcome s [] s"
  by (simp add: pass_outcome_def same_settings_def)

lemma handle_kept:
  assumes "same_settings (conf s1) (conf s')"
    and "\<forall>k g. gauges (conf s1) k = Some g \<longrightarrow> gauges (conf s') k = Some g"
    and "gauges (conf s1) (key_of (conf s1) n) = Some g"
  shows "handle s' n = g"
proof -
  have "key_of (conf s') n = key_of (conf s1) n"
    using assms(1) by (simp add: same_settings_def key_of_def)
  with assms(2,3) show ?thesis by (simp add: handle_def)
qed

lemma pass_outcome_hit:
  assumes hit: "gauges (conf s) (key_of (conf s) n) = Some g"
    and rest: "pass_outcome (Gauge_Set g v s) nvs s'"
  shows "pass_outcome s ((n, v) # nvs) s'"
proof -
  let ?s1 = "Gauge_Set g v s"
  have c1: "conf ?s1 = conf s" and h1: "length (heap ?s1) = length (heap s)"
    and k1: "calls ?s1 = calls s @ [Set_call g v]"
    by (simp_all add: Gauge_Set_def)
  have seen: "n \<in> cached_names (conf s)"
    using hit by (simp add: cached_names_def)
  from rest have ss: "same_settings (conf s) (conf s')"
    and mono: "\<forall>k g. gauges (conf s) k = Some g \<longrightarrow> gauges (conf s') k = Some g"
    and dm: "dom (gauges (conf s')) = dom (gauges (conf s)) \<union> key_of (conf s) ` set (map fst nvs)"
    and cl: "calls s' = calls s @ Set_call g v # expected_calls (handle s') (cached_names (conf s)) nvs"
    and hs: "map (handle s') (first_seen (cached_names (conf s)) (map fst nvs)) =
               [length (heap s) ..< length (heap s) + length (first_seen (cached_names (conf s)) (map fst nvs))]"
    and hl: "length (heap s') = length (heap s) + length (first_seen (cached_names (conf s)) (map fst nvs))"
    by (simp_all add: pass_outcome_def Let_def c1 h1 k1)
  have hn: "handle s' n = g"
    using handle_kept [of s s' n g] ss mono hit by simp
  have dm': "dom (gauges (conf s')) =
      dom (gauges (conf s)) \<union> key_of (conf s) ` set (map fst ((n, v) # nvs))"
    using dm hit by auto
  show ?thesis
    unfolding pass_outcome_def Let_def
    using ss mono dm' cl hs hl seen hn by simp
qed

lemma registered_conf:
  "Namespace (conf (registered n v s)) = Namespace (conf s)"
  "Subsystem (conf (registered n v s)) = Subsystem (conf s)"
  "converter (conf (registered n v s)) = converter (conf s)"
  "keyNormalizer (conf (registered n v s)) = keyNormalizer (conf s)"
  "registry (conf (registered n v s)) = registry (conf s)"
  "FlushInterval (conf (registered n v s)) = FlushInterval (conf s)"
  "gauges (conf (registered n v s)) = (gauges (conf s))(key_of (conf s) n \<mapsto> length (heap s))"
  "collectors (promRegistry (conf (registered n v s))) =
     (collectors (promRegistry (conf s)))(external_name (conf s) n \<mapsto> length (heap s))"
  "admits (promRegistry (conf (registered n v s))) = admits (promRegistry (conf s))"
  "length (heap (registered n v s)) = Suc (length (heap s))"
  "calls (registered n v s) =
     calls s @ [MustRegister_call (length (heap s)), Set_call (length (heap s)) v]"
  by (simp_all add: registered_def Let_def)

lemma registered_names:
  "key_of (conf (registered n v s)) = key_of (conf s)"
  "gauge_opts (conf (registered n v s)) = gauge_opts (conf s)"
  "external_name (conf (registered n v s)) = external_name (conf s)"
  "cached_names (conf (registered n v s)) = insert n (cached_names (conf s))"
  by (auto simp: fun_eq_iff key_of_def external_name_def gauge_opts_def cached_names_def
        registered_conf)

lemma registrable_registered:
  "registrable (conf (registered n v s)) m \<longleftrightarrow>
     registrable (conf s) m \<and> external_name (conf s) m \<noteq> external_name (conf s) n"
  by (auto simp: registrable_def registered_names registered_conf)

lemma pass_outcome_miss:
  assumes miss: "gauges (conf s) (key_of (conf s) n) = None"
    and rest: "pass_outcome (registered n v s) nvs s'"
  shows "pass_outcome s ((n, v) # nvs) s'"
proof -
  let ?s1 = "registered n v s"
  let ?g = "length (heap s)"
  let ?new1 = "first_seen (insert n (cached_names (conf s))) (map fst nvs)"
  have unseen: "n \<notin> cached_names (conf s)"
    using miss by (simp add: cached_names_def)
  from rest have ss1: "same_settings (conf ?s1) (conf s')"
    and mono1: "\<forall>k g. gauges (conf ?s1) k = Some g \<longrightarrow> gauges (conf s') k = Some g"
    and dm1: "dom (gauges (conf s')) =
        dom (gauges (conf ?s1)) \<union> key_of (conf s) ` set (map fst nvs)"
    and cl1: "calls s' = calls ?s1 @
        expected_calls (handle s') (insert n (cached_names (conf s))) nvs"
    and hs1: "map (handle s') ?new1 = [Suc ?g ..< Suc ?g + length ?new1]"
    and hl1: "length (heap s') = Suc ?g + length ?new1"
    by (simp_all add: pass_outcome_def Let_def registered_names registered_conf(10))
  have ss: "same_settings (conf s) (conf s')"
    using ss1 by (simp add: same_settings_def registered_conf)
  have mono: "\<forall>k g. gauges (conf s) k = Some g \<longrightarrow> gauges (conf s') k = Some g"
  proof (intro allI impI)
    fix k g assume kg: "gauges (conf s) k = Some g"
    with miss have "k \<noteq> key_of (conf s) n" by auto
    with kg have "gauges (conf ?s1) k = Some g" by (simp add: registered_conf)
    with mono1 show "gauges (conf s') k = Some g" by blast
  qed
  have "gauges (conf ?s1) (key_of (conf ?s1) n) = Some ?g"
    by (simp add: registered_conf registered_names)
  then have hn: "handle s' n = ?g"
    using handle_kept [of ?s1 s' n ?g] ss1 mono1 by simp
  have dm: "dom (gauges (conf s')) =
      dom (gauges (conf s)) \<union> key_of (conf s) ` set (map fst ((n, v) # nvs))"
    using dm1 by (auto simp: registered_conf)
  have cl: "calls s' = calls s @ expected_calls (handle s') (cached_names (conf s)) ((n, v) # nvs)"
    using cl1 unseen hn by (simp add: registered_conf)
  have hs: "map (handle s') (n # ?new1) = [?g ..< ?g + length (n # ?new1)]"
  proof -
    have "[?g ..< ?g + length (n # ?new1)] = ?g # [Suc ?g ..< Suc ?g + length ?new1]"
      by (subst upt_rec) (simp del: upt_Suc)
    with hs1 hn show ?thesis by (simp del: upt_Suc)
  qed
  have hl: "length (heap s') = ?g + length (n # ?new1)"
    using hl1 by simp
  show ?thesis
    unfolding pass_outcome_def Let_def
    using ss mono dm cl hs hl unseen by simp
qed

lemma accepted_hit:
  "gauges (conf s) (key_of (conf s) n) = Some g \<Longrightarrow>
     registrations_accepted (conf s) (n # names) = registrations_accepted (conf s) names"
  by (simp add: registrations_accepted_def cached_names_def)

lemma accepted_miss:
  assumes "gauges (conf s) (key_of (conf s) n) = None"
  shows "registrations_accepted (conf s) (n # names) \<longleftrightarrow>
     registrable (conf s) n \<and> registrations_accepted (conf (registered n v s)) names"
proof -
  have "n \<notin> cached_names (conf s)"
    using assms by (simp add: cached_names_def)
  then show ?thesis
    by (auto simp: registrations_accepted_def Let_def registered_names registrable_registered
          image_iff)
qed

lemma upsert_all_step:
  assumes "upsert_all (nv # nvs) s = upsert_all nvs s1"
    and "registrations_accepted (conf s) (map fst (nv # nvs)) =
           registrations_accepted (conf s1) (map fst nvs)"
    and "\<And>s'. pass_outcome s1 nvs s' \<Longrightarrow> pass_outcome s (nv # nvs) s'"
    and "if registrations_accepted (conf s1) (map fst nvs)
         then (\<exists>s'. upsert_all nvs s1 = Some s' \<and> pass_outcome s1 nvs s')
         else upsert_all nvs s1 = None"
  shows "if registrations_accepted (conf s) (map fst (nv # nvs))
         then (\<exists>s'. upsert_all (nv # nvs) s = Some s' \<and> pass_outcome s (nv # nvs) s')
         else upsert_all (nv # nvs) s = None"
proof (cases "registrations_accepted (conf s1) (map fst nvs)")
  case True
  with assms(4) obtain s' where "upsert_all nvs s1 = Some s'" and "pass_outcome s1 nvs s'"
    by auto
  with assms(1,3) have "upsert_all (nv # nvs) s = Some s' \<and> pass_outcome s (nv # nvs) s'"
    by simp
  with True assms(2) show ?thesis by auto
next
  case False
  with assms(4) have "upsert_all nvs s1 = None" by simp
  with False assms(1,2) show ?thesis by simp
qed

lemma upsert_all_spec:
  "if registrations_accepted (conf s) (map fst nvs)
   then (\<exists>s'. upsert_all nvs s = Some s' \<and> pass_outcome s nvs s')
   else upsert_all nvs s = None"
proof (induction nvs arbitrary: s)
  case Nil
  show ?case
    by (simp add: registrations_accepted_def pass_outcome_Nil)
next
  case (Cons nv nvs)
  obtain n v where nv: "nv = (n, v)" by (cases nv)
  show ?case
  proof (cases "gauges (conf s) (key_of (conf s) n)")
    case (Some g)
    have step: "upsert_all (nv # nvs) s = upsert_all nvs (Gauge_Set g v s)"
      by (simp add: nv gaugeFromNameAndValue_hit [OF Some])
    have acc: "registrations_accepted (conf s) (map fst (nv # nvs)) =
        registrations_accepted (conf (Gauge_Set g v s)) (map fst nvs)"
      by (simp add: nv accepted_hit [OF Some] Gauge_Set_def)
    show ?thesis
      using step acc pass_outcome_hit [OF Some, of v nvs] Cons.IH [of "Gauge_Set g v s"]
      unfolding nv by (rule upsert_all_step)
  next
    case None
    show ?thesis
    proof (cases "registrable (conf s) n")
      case True
      have step: "upsert_all (nv # nvs) s = upsert_all nvs (registered n v s)"
        by (simp add: nv gaugeFromNameAndValue_miss [OF None] True)
      have acc: "registrations_accepted (conf s) (map fst (nv # nvs)) =
          registrations_accepted (conf (registered n v s)) (map fst nvs)"
        using accepted_miss [OF None, of "map fst nvs" v] True by (simp add: nv)
      show ?thesis
        using step acc pass_outcome_miss [OF None, of v nvs] Cons.IH [of "registered n v s"]
        unfolding nv by (rule upsert_all_step)
    next
      case False
      have "upsert_all (nv # nvs) s = None"
        using False by (simp add: nv gaugeFromNameAndValue_miss [OF None])
      moreover have "\<not> registrations_accepted (conf s) (map fst (nv # nvs))"
        using accepted_miss [OF None, of "map fst nvs" v] False by (simp add: nv)
      ultimately show ?thesis by simp
    qed
  qed
qed

lemma gaugeFromNameAndValue_settings:
  assumes "gaugeFromNameAndValue n v s = Some s'"
  shows "same_settings (conf s) (conf s')"
proof (cases "gauges (conf s) (key_of (conf s) n)")
  case None
  with assms have "s' = registered n v s"
    by (simp add: gaugeFromNameAndValue_miss split: if_splits)
  then show ?thesis by (simp add: same_settings_def registered_conf)
next
  case (Some g)
  with assms have "s' = Gauge_Set g v s"
    by (simp add: gaugeFromNameAndValue_hit)
  then show ?thesis by (simp add: same_settings_def Gauge_Set_def)
qed

lemma converted_cong: "converter c' = converter c \<Longrightarrow> converted c' r = converted c r"
  by (simp add: converted_def cong: if_cong)

lemma converted_Cons:
  "converted c ((n, i) # r) =
     (if snd (converter c n i) = None then (n, fst (converter c n i)) # converted c r
      else converted c r)"
  by (simp add: converted_def)

lemma Each_upsert_all:
  "Each r (\<lambda>name i s.
             let (v, err) = converter (conf s) name i
             in if err = None then gaugeFromNameAndValue name v s else Some s) s
     = upsert_all (converted (conf s) r) s"
proof (induction r arbitrary: s)
  case Nil
  show ?case by (simp add: converted_def)
next
  case (Cons ni r)
  obtain n i where ni: "ni = (n, i)" by (cases ni)
  obtain v err where cv: "converter (conf s) n i = (v, err)" by (cases "converter (conf s) n i")
  show ?case
  proof (cases err)
    case (Some e)
    with cv Cons.IH [of s] show ?thesis by (simp add: ni converted_Cons)
  next
    case None
    show ?thesis
    proof (cases "gaugeFromNameAndValue n v s")
      case None
      with cv \<open>err = None\<close> show ?thesis by (simp add: ni converted_Cons)
    next
      case (Some s1)
      then have "converter (conf s1) = converter (conf s)"
        using gaugeFromNameAndValue_settings [of n v s s1] by (simp add: same_settings_def)
      then have "converted (conf s1) r = converted (conf s) r"
        by (rule converted_cong)
      with Some cv \<open>err = None\<close> Cons.IH [of s1] show ?thesis
        by (simp add: ni converted_Cons)
    qed
  qed
qed

lemma UpdatePrometheusMetricsOnce_spec:
  "if registrations_accepted (conf s) (map fst (converted (conf s) (registry (conf s))))
   then (\<exists>s'. UpdatePrometheusMetricsOnce s = Some (None, s') \<and>
              pass_outcome s (converted (conf s) (registry (conf s))) s')
   else UpdatePrometheusMetricsOnce s = None"
proof -
  have "UpdatePrometheusMetricsOnce s =
      (case upsert_all (converted (conf s) (registry (conf s))) s of
         None \<Rightarrow> None | Some s' \<Rightarrow> Some (None, s'))"
    unfolding UpdatePrometheusMetricsOnce_def Each_upsert_all ..
  with upsert_all_spec [of s "converted (conf s) (registry (conf s))"]
  show ?thesis by auto
qed

lemma expected_calls_Set:
  "filter is_Set (expected_calls h seen nvs) = map (\<lambda>(n, v). Set_call (h n) v) nvs"
  by (induction h seen nvs rule: expected_calls.induct) simp_all

lemma expected_calls_MustRegister:
  "filter is_MustRegister (expected_calls h seen nvs) =
     map (\<lambda>n. MustRegister_call (h n)) (first_seen seen (map fst nvs))"
  by (induction h seen nvs rule: expected_calls.induct) simp_all


lemmas pass_eval =
  UpdatePrometheusMetricsOnce_def fresh_state_def example_registry_def colliding_registry_def
  DefaultMetricConverter_def gaugeFromNameAndValue_def NewGauge_def MustRegister_def
  Gauge_Set_def fqName_def BuildFQName_def DefaultKeyNormalizer_def Errorf_def
  empty_registry_def Let_def

text \<open>
  C4, as amended. A pass never returns an error other than \<^verbatim>\<open>nil\<close>, whatever the
  converter does. It returns exactly when the external registry accepts every
  registration the pass makes: the names that convert with no error and have no
  cache entry yet have pairwise distinct identifiers, and for each of them the
  registry admits the gauge and has nothing registered under its identifier.
  Otherwise \<^verbatim>\<open>MustRegister\<close> panics and the pass does not return. When the
  pass returns, the calls it has made are one \<^verbatim>\<open>Set\<close> for each entry that converted
  with no error, in iteration order, with the converted value, on the gauge cached
  for the entry's name, and one \<^verbatim>\<open>MustRegister\<close> for each such name met for the first
  time; and the cache has gained the keys of those names and no other. An entry
  whose conversion fails takes no part in any of this.
\<close>

theorem UpdatePrometheusMetricsOnce_outcome:
  "(UpdatePrometheusMetricsOnce s \<noteq> None \<longleftrightarrow>
      registrations_accepted (conf s) (map fst (converted (conf s) (registry (conf s)))))
   \<and> (\<forall>e s'. UpdatePrometheusMetricsOnce s = Some (e, s') \<longrightarrow>
         e = None
       \<and> calls s' = calls s @ new_calls s s'
       \<and> filter is_Set (new_calls s s') =
           map (\<lambda>(n, v). Set_call (handle s' n) v) (converted (conf s) (registry (conf s)))
       \<and> filter is_MustRegister (new_calls s s') =
           map (\<lambda>n. MustRegister_call (handle s' n))
             (first_seen (cached_names (conf s))
                (map fst (converted (conf s) (registry (conf s)))))
       \<and> dom (gauges (conf s')) =
           dom (gauges (conf s)) \<union>
           key_of (conf s) ` fst ` set (converted (conf s) (registry (conf s))))"
proof (cases "registrations_accepted (conf s) (map fst (converted (conf s) (registry (conf s))))")
  case False
  with UpdatePrometheusMetricsOnce_spec [of s] show ?thesis by simp
next
  case True
  with UpdatePrometheusMetricsOnce_spec [of s] obtain s1
    where ret: "UpdatePrometheusMetricsOnce s = Some (None, s1)"
      and out: "pass_outcome s (converted (conf s) (registry (conf s))) s1"
    by auto
  from out have cl: "calls s1 = calls s @
      expected_calls (handle s1) (cached_names (conf s)) (converted (conf s) (registry (conf s)))"
    and dm: "dom (gauges (conf s1)) =
      dom (gauges (conf s)) \<union> key_of (conf s) ` fst ` set (converted (conf s) (registry (conf s)))"
    by (simp_all add: pass_outcome_def Let_def)
  from cl have nc: "new_calls s s1 =
      expected_calls (handle s1) (cached_names (conf s)) (converted (conf s) (registry (conf s)))"
    by (simp add: new_calls_def)
  show ?thesis
    using True ret cl dm
    by (simp add: nc expected_calls_Set expected_calls_MustRegister)
qed

theorem UpdatePrometheusMetricsOnce_outcome_witness:
  "registrations_accepted (conf (fresh_state example_registry))
     (map fst (converted (conf (fresh_state example_registry))
        (registry (conf (fresh_state example_registry)))))
   \<and> UpdatePrometheusMetricsOnce (fresh_state example_registry) \<noteq> None
   \<and> fst (the (UpdatePrometheusMetricsOnce (fresh_state example_registry))) = None
   \<and> filter is_Set (new_calls (fresh_state example_registry)
        (snd (the (UpdatePrometheusMetricsOnce (fresh_state example_registry))))) =
       [Set_call 0 (float64_of_int64 15), Set_call 1 (float64_of_int64 13)]
   \<and> filter is_MustRegister (new_calls (fresh_state example_registry)
        (snd (the (UpdatePrometheusMetricsOnce (fresh_state example_registry))))) =
       [MustRegister_call 0, MustRegister_call 1]
   \<and> dom (gauges (conf (snd (the (UpdatePrometheusMetricsOnce (fresh_state example_registry))))))
       = {''test_subsys_counter'', ''test_subsys_My.Gauge''}"
proof -
  let ?s = "fresh_state example_registry"
  have cv: "converted (conf ?s) (registry (conf ?s)) =
      [(''counter'', float64_of_int64 15), (''My.Gauge'', float64_of_int64 13)]"
    by (simp add: fresh_state_def example_registry_def converted_def DefaultMetricConverter_def)
  have cn: "cached_names (conf ?s) = {}" "dom (gauges (conf ?s)) = {}"
    and k: "key_of (conf ?s) = (\<lambda>n. ''test_subsys_'' @ n)"
    by (simp_all add: fresh_state_def cached_names_def key_of_def fun_eq_iff)
  have acc: "registrations_accepted (conf ?s) (map fst (converted (conf ?s) (registry (conf ?s))))"
    unfolding cv
    by (simp add: fresh_state_def registrations_accepted_def cached_names_def
          external_name_def gauge_opts_def fqName_def registrable_def empty_registry_def
          BuildFQName_def DefaultKeyNormalizer_def key_of_def)
  with UpdatePrometheusMetricsOnce_outcome [of ?s]
  have ne: "UpdatePrometheusMetricsOnce ?s \<noteq> None"
    by blast
  then obtain e s' where r: "UpdatePrometheusMetricsOnce ?s = Some (e, s')"
    by (cases "UpdatePrometheusMetricsOnce ?s") auto
  have "map_option (\<lambda>(e, s). (handle s ''counter'', handle s ''My.Gauge''))
          (UpdatePrometheusMetricsOnce ?s) = Some (0, 1)"
    by (simp add: pass_eval handle_def key_of_def)
  with r have h: "handle s' ''counter'' = 0" "handle s' ''My.Gauge'' = 1"
    by simp_all
  from UpdatePrometheusMetricsOnce_outcome [of ?s] r
  have "e = None"
    and "filter is_Set (new_calls ?s s') =
           map (\<lambda>(n, v). Set_call (handle s' n) v) (converted (conf ?s) (registry (conf ?s)))"
    and "filter is_MustRegister (new_calls ?s s') =
           map (\<lambda>n. MustRegister_call (handle s' n))
             (first_seen (cached_names (conf ?s))
                (map fst (converted (conf ?s) (registry (conf ?s)))))"
    and "dom (gauges (conf s')) =
           dom (gauges (conf ?s)) \<union> key_of (conf ?s) ` fst ` set (converted (conf ?s) (registry (conf ?s)))"
    by blast+
  then have "e = None"
    and "filter is_Set (new_calls ?s s') =
           [Set_call 0 (float64_of_int64 15), Set_call 1 (float64_of_int64 13)]"
    and "filter is_MustRegister (new_calls ?s s') = [MustRegister_call 0, MustRegister_call 1]"
    and "dom (gauges (conf s')) = {''test_subsys_counter'', ''test_subsys_My.Gauge''}"
    by (simp_all add: cv cn k h)
  with acc ne r show ?thesis by simp
qed

text \<open>
  C4, as stated, fails: the provider built with the default options over a source
  registry holding the names \<open>a.b\<close> and \<open>a-b\<close> does not return from its first pass.
  Both names reach the external registry as \<open>test_subsys_a_b\<close>, and the second
  registration panics.
\<close>

theorem UpdatePrometheusMetricsOnce_collision_no_return:
  "NewPrometheusProvider colliding_registry ''test'' ''subsys'' empty_registry [] =
     (Some (conf (fresh_state colliding_registry)), None)
   \<and> UpdatePrometheusMetricsOnce (fresh_state colliding_registry) = None"
  by (simp add: NewPrometheusProvider_def pass_eval)

subsection \<open>Pass after pass\<close>

lemma first_seen_all_seen: "set ns \<subseteq> seen \<Longrightarrow> first_seen seen ns = []"
  by (induction ns) auto

lemma first_seen_all_new:
  "distinct ns \<Longrightarrow> set ns \<inter> seen = {} \<Longrightarrow> first_seen seen ns = ns"
  by (induction ns arbitrary: seen) auto

lemma expected_calls_all_seen:
  "fst ` set nvs \<subseteq> seen \<Longrightarrow>
     expected_calls h seen nvs = map (\<lambda>(n, v). Set_call (h n) v) nvs"
  by (induction nvs) auto

lemma expected_calls_all_new:
  "distinct (map fst nvs) \<Longrightarrow> fst ` set nvs \<inter> seen = {} \<Longrightarrow>
     expected_calls h seen nvs =
       concat (map (\<lambda>(n, v). [MustRegister_call (h n), Set_call (h n) v]) nvs)"
  by (induction nvs arbitrary: seen) auto

lemma count_name:
  "distinct (map fst xs) \<Longrightarrow>
     length (filter (\<lambda>x. fst x = n) xs) = (if n \<in> fst ` set xs then 1 else 0)"
  by (induction xs) (auto simp: image_iff)

lemma count_handle:
  assumes "distinct (map fst xs)" and "n \<in> fst ` set xs" and "inj_on h (fst ` set xs)"
  shows "length (filter (\<lambda>x. h (fst x) = h n) xs) = 1"
proof -
  have "filter (\<lambda>x. h (fst x) = h n) xs = filter (\<lambda>x. fst x = n) xs"
    using assms(2,3) by (intro filter_cong) (auto simp: inj_on_def)
  with count_name [OF assms(1), of n] assms(2) show ?thesis by simp
qed

lemma count_Set_sets:
  "count_Set g (map (\<lambda>(n, v). Set_call (h n) v) nvs) = length (filter (\<lambda>x. h (fst x) = g) nvs)"
  by (induction nvs) (auto simp: count_Set_def)

lemma count_MustRegister_sets:
  "count_MustRegister g (map (\<lambda>(n, v). Set_call (h n) v) nvs) = 0"
  by (simp add: count_MustRegister_def filter_map o_def split_def)

lemma count_Set_both:
  "count_Set g (concat (map (\<lambda>(n, v). [MustRegister_call (h n), Set_call (h n) v]) nvs))
     = length (filter (\<lambda>x. h (fst x) = g) nvs)"
  by (induction nvs) (auto simp: count_Set_def)

lemma count_MustRegister_both:
  "count_MustRegister g (concat (map (\<lambda>(n, v). [MustRegister_call (h n), Set_call (h n) v]) nvs))
     = length (filter (\<lambda>x. h (fst x) = g) nvs)"
  by (induction nvs) (auto simp: count_MustRegister_def)

lemma count_append:
  "count_Set g (xs @ ys) = count_Set g xs + count_Set g ys"
  "count_MustRegister g (xs @ ys) = count_MustRegister g xs + count_MustRegister g ys"
  by (simp_all add: count_Set_def count_MustRegister_def)


lemma with_registry_conf:
  "Namespace (conf (with_registry r s)) = Namespace (conf s)"
  "Subsystem (conf (with_registry r s)) = Subsystem (conf s)"
  "converter (conf (with_registry r s)) = converter (conf s)"
  "keyNormalizer (conf (with_registry r s)) = keyNormalizer (conf s)"
  "registry (conf (with_registry r s)) = r"
  "gauges (conf (with_registry r s)) = gauges (conf s)"
  "promRegistry (conf (with_registry r s)) = promRegistry (conf s)"
  "heap (with_registry r s) = heap s"
  "calls (with_registry r s) = calls s"
  by (simp_all add: with_registry_def)

lemma with_registry_names:
  "key_of (conf (with_registry r s)) = key_of (conf s)"
  "gauge_opts (conf (with_registry r s)) = gauge_opts (conf s)"
  "external_name (conf (with_registry r s)) = external_name (conf s)"
  "registrable (conf (with_registry r s)) = registrable (conf s)"
  "cached_names (conf (with_registry r s)) = cached_names (conf s)"
  "converted (conf (with_registry r s)) = converted (conf s)"
  "handle (with_registry r s) = handle s"
  by (simp_all add: fun_eq_iff key_of_def external_name_def gauge_opts_def registrable_def
        cached_names_def converted_def handle_def with_registry_conf cong: if_cong)

lemma UpdatePrometheusMetrics_Cons:
  "UpdatePrometheusMetrics (r # ticks) s =
     (case UpdatePrometheusMetricsOnce (with_registry r s) of
        None \<Rightarrow> None
      | Some (err, s') \<Rightarrow> UpdatePrometheusMetrics ticks s')"
  by (simp add: with_registry_def)

text \<open>A pass over names that all have a cache entry only sets gauges.\<close>

lemma pass_all_cached:
  assumes "fst ` set r \<subseteq> cached_names (conf t)"
  shows "\<exists>t'. UpdatePrometheusMetricsOnce (with_registry r t) = Some (None, t')
           \<and> gauges (conf t') = gauges (conf t)
           \<and> Namespace (conf t') = Namespace (conf t)
           \<and> Subsystem (conf t') = Subsystem (conf t)
           \<and> converter (conf t') = converter (conf t)
           \<and> calls t' = calls t @ map (\<lambda>(n, v). Set_call (handle t n) v) (converted (conf t) r)"
proof -
  let ?t = "with_registry r t"
  let ?nvs = "converted (conf t) r"
  have sub: "fst ` set ?nvs \<subseteq> cached_names (conf t)"
    using assms by (auto simp: converted_def split: if_splits)
  then have fs: "first_seen (cached_names (conf t)) (map fst ?nvs) = []"
    by (simp add: first_seen_all_seen)
  then have "registrations_accepted (conf ?t) (map fst (converted (conf ?t) (registry (conf ?t))))"
    by (simp add: registrations_accepted_def with_registry_names with_registry_conf)
  with UpdatePrometheusMetricsOnce_spec [of ?t] obtain t'
    where ret: "UpdatePrometheusMetricsOnce ?t = Some (None, t')"
      and out: "pass_outcome ?t ?nvs t'"
    by (auto simp: with_registry_names with_registry_conf)
  from out have ss: "same_settings (conf ?t) (conf t')"
    and mono: "\<forall>k g. gauges (conf t) k = Some g \<longrightarrow> gauges (conf t') k = Some g"
    and dm: "dom (gauges (conf t')) = dom (gauges (conf t)) \<union> key_of (conf t) ` fst ` set ?nvs"
    and cl: "calls t' = calls t @ expected_calls (handle t') (cached_names (conf t)) ?nvs"
    by (simp_all add: pass_outcome_def Let_def with_registry_names with_registry_conf)
  have "key_of (conf t) ` fst ` set ?nvs \<subseteq> dom (gauges (conf t))"
    using sub by (auto simp: cached_names_def)
  with dm have dm': "dom (gauges (conf t')) = dom (gauges (conf t))"
    by (simp add: Un_absorb2)
  have g: "gauges (conf t') = gauges (conf t)"
  proof
    fix k show "gauges (conf t') k = gauges (conf t) k"
    proof (cases "gauges (conf t) k")
      case None
      with dm' show ?thesis by (metis domIff)
    next
      case (Some a)
      with mono show ?thesis by simp
    qed
  qed
  from ss have st: "Namespace (conf t') = Namespace (conf t)"
    "Subsystem (conf t') = Subsystem (conf t)" "converter (conf t') = converter (conf t)"
    by (simp_all add: same_settings_def with_registry_conf)
  have "handle t' = handle t"
    by (simp add: fun_eq_iff handle_def key_of_def g st)
  with cl sub have "calls t' = calls t @ map (\<lambda>(n, v). Set_call (handle t n) v) ?nvs"
    by (simp add: expected_calls_all_seen)
  with ret g st show ?thesis by blast
qed

lemma passes_all_cached:
  assumes "\<forall>r\<in>set ticks. fst ` set r \<subseteq> cached_names (conf t)"
  shows "\<exists>t'. UpdatePrometheusMetrics ticks t = Some t'
           \<and> gauges (conf t') = gauges (conf t)
           \<and> Namespace (conf t') = Namespace (conf t)
           \<and> Subsystem (conf t') = Subsystem (conf t)
           \<and> calls t' = calls t @
               concat (map (\<lambda>r. map (\<lambda>(n, v). Set_call (handle t n) v) (converted (conf t) r)) ticks)"
  using assms
proof (induction ticks arbitrary: t)
  case Nil
  show ?case by simp
next
  case (Cons r ticks)
  from Cons.prems have "fst ` set r \<subseteq> cached_names (conf t)" by simp
  from pass_all_cached [OF this] obtain t1
    where ret: "UpdatePrometheusMetricsOnce (with_registry r t) = Some (None, t1)"
      and g: "gauges (conf t1) = gauges (conf t)"
      and st: "Namespace (conf t1) = Namespace (conf t)" "Subsystem (conf t1) = Subsystem (conf t)"
        "converter (conf t1) = converter (conf t)"
      and cl: "calls t1 = calls t @ map (\<lambda>(n, v). Set_call (handle t n) v) (converted (conf t) r)"
    by blast
  have same: "cached_names (conf t1) = cached_names (conf t)" "handle t1 = handle t"
    "converted (conf t1) = converted (conf t)"
    by (simp_all add: fun_eq_iff cached_names_def handle_def key_of_def converted_def g st
          cong: if_cong)
  with Cons.prems have "\<forall>r\<in>set ticks. fst ` set r \<subseteq> cached_names (conf t1)" by simp
  from Cons.IH [OF this] obtain t'
    where ret': "UpdatePrometheusMetrics ticks t1 = Some t'"
      and g': "gauges (conf t') = gauges (conf t1)"
      and st': "Namespace (conf t') = Namespace (conf t1)" "Subsystem (conf t') = Subsystem (conf t1)"
      and cl': "calls t' = calls t1 @
          concat (map (\<lambda>r. map (\<lambda>(n, v). Set_call (handle t1 n) v) (converted (conf t1) r)) ticks)"
    by blast
  have "UpdatePrometheusMetrics (r # ticks) t = Some t'"
    by (simp only: UpdatePrometheusMetrics_Cons ret ret' option.case prod.case)
  with g g' st st' cl cl' same show ?case by simp
qed


lemma converted_all:
  "\<forall>(n, i)\<in>set r. snd (converter c n i) = None \<Longrightarrow> map fst (converted c r) = map fst r"
  by (induction r) (auto simp: converted_Cons converted_def)

lemma count_concat_sets:
  "count_MustRegister g (concat (map (\<lambda>r. map (\<lambda>(n, v). Set_call (h n) v) (f r)) ticks)) = 0"
proof (induction ticks)
  case Nil
  show ?case by (simp add: count_MustRegister_def)
next
  case (Cons r ticks)
  then show ?case by (simp add: count_append count_MustRegister_sets)
qed

lemma filter_concat_sets:
  "filter is_MustRegister (concat (map (\<lambda>r. map (\<lambda>(n, v). Set_call (h n) v) (f r)) ticks)) = []"
  by (induction ticks) (simp_all add: filter_map o_def split_def)

lemma count_Set_concat:
  "\<forall>r\<in>set ticks. length (filter (\<lambda>x. h (fst x) = g) (f r)) = 1 \<Longrightarrow>
     count_Set g (concat (map (\<lambda>r. map (\<lambda>(n, v). Set_call (h n) v) (f r)) ticks)) = length ticks"
proof (induction ticks)
  case Nil
  show ?case by (simp add: count_Set_def)
next
  case (Cons r ticks)
  then show ?case by (simp add: count_append count_Set_sets)
qed

lemma filter_MustRegister_both:
  "filter is_MustRegister
     (concat (map (\<lambda>(n, v). [MustRegister_call (h n), Set_call (h n) v]) nvs))
     = map (\<lambda>x. MustRegister_call (h (fst x))) nvs"
  by (induction nvs) auto

text \<open>The first pass of a provider with an empty cache registers every name.\<close>

lemma first_pass:
  assumes fresh: "gauges (conf s) = Map.empty"
    and dist: "distinct (map fst r)"
    and conv: "\<forall>(n, i)\<in>set r. snd (converter (conf s) n i) = None"
    and inj: "inj_on (external_name (conf s)) (fst ` set r)"
    and free: "\<forall>n\<in>fst ` set r. registrable (conf s) n"
  shows "\<exists>s1. UpdatePrometheusMetricsOnce (with_registry r s) = Some (None, s1)
           \<and> Namespace (conf s1) = Namespace (conf s)
           \<and> Subsystem (conf s1) = Subsystem (conf s)
           \<and> converter (conf s1) = converter (conf s)
           \<and> dom (gauges (conf s1)) = key_of (conf s) ` fst ` set r
           \<and> inj_on (handle s1) (fst ` set r)
           \<and> calls s1 = calls s @
                concat (map (\<lambda>(n, v). [MustRegister_call (handle s1 n), Set_call (handle s1 n) v])
                          (converted (conf s) r))"
proof -
  let ?t = "with_registry r s"
  let ?nvs = "converted (conf s) r"
  have names: "map fst ?nvs = map fst r"
    using conv by (rule converted_all)
  have none: "cached_names (conf s) = {}"
    by (simp add: cached_names_def fresh)
  have fs: "first_seen (cached_names (conf s)) (map fst ?nvs) = map fst r"
    using dist by (simp add: names none first_seen_all_new)
  have "distinct (map (external_name (conf s)) (map fst r))"
    using dist inj by (simp add: distinct_map del: map_map)
  with free have "registrations_accepted (conf ?t) (map fst (converted (conf ?t) (registry (conf ?t))))"
    by (simp add: registrations_accepted_def with_registry_names with_registry_conf fs
          del: map_map)
  with UpdatePrometheusMetricsOnce_spec [of ?t] obtain s1
    where ret: "UpdatePrometheusMetricsOnce ?t = Some (None, s1)"
      and out: "pass_outcome ?t ?nvs s1"
    by (auto simp: with_registry_names with_registry_conf)
  from out have ss: "same_settings (conf ?t) (conf s1)"
    and dm: "dom (gauges (conf s1)) = dom (gauges (conf s)) \<union> key_of (conf s) ` set (map fst ?nvs)"
    and cl: "calls s1 = calls s @ expected_calls (handle s1) (cached_names (conf s)) ?nvs"
    and hs: "map (handle s1) (map fst r) =
              [length (heap s) ..< length (heap s) + length (map fst r)]"
    by (simp_all add: pass_outcome_def Let_def with_registry_names with_registry_conf fs
          del: map_map set_map)
  from ss have st: "Namespace (conf s1) = Namespace (conf s)"
    "Subsystem (conf s1) = Subsystem (conf s)" "converter (conf s1) = converter (conf s)"
    by (simp_all add: same_settings_def with_registry_conf)
  from dm have dm': "dom (gauges (conf s1)) = key_of (conf s) ` fst ` set r"
    by (simp add: names fresh del: map_map)
  have "distinct (map (handle s1) (map fst r))"
    unfolding hs by simp
  then have ih: "inj_on (handle s1) (fst ` set r)"
    by (simp add: distinct_map del: map_map)
  have "distinct (map fst ?nvs)" "fst ` set ?nvs \<inter> cached_names (conf s) = {}"
    using dist by (simp_all add: names none)
  then have "expected_calls (handle s1) (cached_names (conf s)) ?nvs =
      concat (map (\<lambda>(n, v). [MustRegister_call (handle s1 n), Set_call (handle s1 n) v]) ?nvs)"
    by (rule expected_calls_all_new)
  with cl ret st dm' ih show ?thesis by simp
qed


lemma after_first_pass:
  assumes "UpdatePrometheusMetricsOnce (with_registry r1 s) = Some (None, s1)"
    and "converter (conf s1) = converter (conf s)"
    and "\<forall>r\<in>set rest. fst ` set r \<subseteq> cached_names (conf s1)"
  shows "\<exists>s'. UpdatePrometheusMetrics (r1 # rest) s = Some s'
           \<and> gauges (conf s') = gauges (conf s1)
           \<and> Namespace (conf s') = Namespace (conf s1)
           \<and> Subsystem (conf s') = Subsystem (conf s1)
           \<and> calls s' = calls s1 @
               concat (map (\<lambda>r. map (\<lambda>(n, v). Set_call (handle s1 n) v) (converted (conf s) r)) rest)"
proof -
  have "converted (conf s1) = converted (conf s)"
    using assms(2) by (simp add: fun_eq_iff converted_def cong: if_cong)
  with passes_all_cached [OF assms(3)] assms(1) show ?thesis
    by (simp only: UpdatePrometheusMetrics_Cons option.case prod.case)
qed

text \<open>
  C2, as amended. Take a provider whose cache is empty, and \<open>N \<ge> 1\<close> passes over a
  source registry whose names are the same set \<open>S\<close> at every pass (each name once)
  and whose metrics all convert with no error. If the identifiers of the names are
  pairwise distinct, and for each name the external registry admits the gauge and
  has nothing registered under its identifier, then all \<open>N\<close> passes return; for every name the gauge cached for it has been registered
  exactly once and set exactly \<open>N\<close> times; there are as many registrations as names;
  the cache has exactly the keys of the names; and after every single pass the cache
  is already the final one and all registrations have been made, so each gauge is
  registered in the first pass.
\<close>

theorem registration_once_per_name:
  assumes fresh: "gauges (conf s) = Map.empty"
    and ticks: "ticks \<noteq> []"
    and names: "\<forall>r\<in>set ticks. distinct (map fst r) \<and> fst ` set r = S"
    and conv: "\<forall>r\<in>set ticks. \<forall>(n, i)\<in>set r. snd (converter (conf s) n i) = None"
    and inj: "inj_on (external_name (conf s)) S"
    and free: "\<forall>n\<in>S. registrable (conf s) n"
  shows "\<exists>s'. UpdatePrometheusMetrics ticks s = Some s'
           \<and> calls s' = calls s @ new_calls s s'
           \<and> dom (gauges (conf s')) = key_of (conf s) ` S
           \<and> (\<forall>n\<in>S. count_MustRegister (handle s' n) (new_calls s s') = 1
                    \<and> count_Set (handle s' n) (new_calls s s') = length ticks)
           \<and> length (filter is_MustRegister (new_calls s s')) = card S
           \<and> (\<forall>k. 0 < k \<and> k \<le> length ticks \<longrightarrow>
                 (\<exists>sk. UpdatePrometheusMetrics (take k ticks) s = Some sk
                     \<and> gauges (conf sk) = gauges (conf s')
                     \<and> filter is_MustRegister (new_calls s sk) =
                         filter is_MustRegister (new_calls s s')))"
proof -
  from ticks obtain r1 rest where tk: "ticks = r1 # rest"
    by (cases ticks) auto
  let ?nvs = "converted (conf s) r1"
  let ?E = "\<lambda>h. concat (map (\<lambda>(n, v). [MustRegister_call (h n), Set_call (h n) v]) ?nvs)"
  let ?L = "\<lambda>h rs. concat (map (\<lambda>r. map (\<lambda>(n, v). Set_call (h n) v) (converted (conf s) r)) rs)"
  have r1: "distinct (map fst r1)" "fst ` set r1 = S"
    "\<forall>(n, i)\<in>set r1. snd (converter (conf s) n i) = None"
    using names conv by (simp_all add: tk)
  from first_pass [OF fresh r1(1) r1(3)] inj free r1(2) obtain s1
    where p1: "UpdatePrometheusMetricsOnce (with_registry r1 s) = Some (None, s1)"
      and st1: "Namespace (conf s1) = Namespace (conf s)" "Subsystem (conf s1) = Subsystem (conf s)"
        "converter (conf s1) = converter (conf s)"
      and dm1: "dom (gauges (conf s1)) = key_of (conf s) ` S"
      and ih: "inj_on (handle s1) S"
      and cl1: "calls s1 = calls s @ ?E (handle s1)"
    by auto
  have k1: "key_of (conf s1) = key_of (conf s)"
    by (simp add: fun_eq_iff key_of_def st1)
  have cached: "cached_names (conf s1) = S"
  proof -
    have "cached_names (conf s1) = {n. key_of (conf s) n \<in> dom (gauges (conf s1))}"
      by (auto simp: cached_names_def k1)
    then show ?thesis by (auto simp: dm1)
  qed
  have tail: "\<exists>s'. UpdatePrometheusMetrics (r1 # rs) s = Some s'
           \<and> gauges (conf s') = gauges (conf s1)
           \<and> Namespace (conf s') = Namespace (conf s1)
           \<and> Subsystem (conf s') = Subsystem (conf s1)
           \<and> calls s' = calls s1 @ ?L (handle s1) rs" if "set rs \<subseteq> set rest" for rs
  proof -
    have "\<forall>r\<in>set rs. fst ` set r = S"
    proof
      fix r assume "r \<in> set rs"
      with that have "r \<in> set ticks" by (auto simp: tk)
      with names show "fst ` set r = S" by simp
    qed
    then have "\<forall>r\<in>set rs. fst ` set r \<subseteq> cached_names (conf s1)"
      by (simp add: cached)
    from after_first_pass [OF p1 st1(3) this] show ?thesis .
  qed
  from tail [of rest] obtain s'
    where ret: "UpdatePrometheusMetrics ticks s = Some s'"
      and g': "gauges (conf s') = gauges (conf s1)"
      and st': "Namespace (conf s') = Namespace (conf s1)" "Subsystem (conf s') = Subsystem (conf s1)"
      and cl': "calls s' = calls s1 @ ?L (handle s1) rest"
    by (auto simp: tk)
  have h': "handle s' = handle s1"
    by (simp add: fun_eq_iff handle_def key_of_def g' st')
  have nc: "new_calls s s' = ?E (handle s1) @ ?L (handle s1) rest"
    by (simp add: new_calls_def cl' cl1)
  have cs: "calls s' = calls s @ new_calls s s'"
    by (simp add: nc cl' cl1)
  have dm: "dom (gauges (conf s')) = key_of (conf s) ` S"
    by (simp add: g' dm1)
  have nm1: "map fst ?nvs = map fst r1"
    using r1(3) by (rule converted_all)
  have dn1: "distinct (map fst ?nvs)" and sn1: "fst ` set ?nvs = S"
    using r1(1,2) nm1 by (simp_all del: map_map) (metis list.set_map)
  have one: "length (filter (\<lambda>x. handle s1 (fst x) = handle s1 n) (converted (conf s) r)) = 1"
    if "r \<in> set ticks" and "n \<in> S" for r n
  proof -
    from that(1) names conv have d: "distinct (map fst r)" and f: "fst ` set r = S"
      and c: "\<forall>(n, i)\<in>set r. snd (converter (conf s) n i) = None"
      by auto
    have m: "map fst (converted (conf s) r) = map fst r"
      using c by (rule converted_all)
    then have "distinct (map fst (converted (conf s) r))"
      and "fst ` set (converted (conf s) r) = S"
      using d f by (simp_all del: map_map) (metis list.set_map)
    with count_handle [of "converted (conf s) r" n "handle s1"] that(2) ih show ?thesis
      by simp
  qed
  have counts: "count_MustRegister (handle s' n) (new_calls s s') = 1
      \<and> count_Set (handle s' n) (new_calls s s') = length ticks" if "n \<in> S" for n
  proof -
    have a: "count_MustRegister (handle s1 n) (?E (handle s1)) = 1"
      and b: "count_Set (handle s1 n) (?E (handle s1)) = 1"
      using one [of r1 n] that
      by (simp_all add: count_MustRegister_both count_Set_both tk)
    have c: "count_MustRegister (handle s1 n) (?L (handle s1) rest) = 0"
      by (rule count_concat_sets)
    have "\<forall>r\<in>set rest. length (filter (\<lambda>x. handle s1 (fst x) = handle s1 n)
        (converted (conf s) r)) = 1"
      using one that by (simp add: tk)
    then have d: "count_Set (handle s1 n) (?L (handle s1) rest) = length rest"
      by (rule count_Set_concat)
    from a b c d show ?thesis
      by (simp add: h' nc count_append tk)
  qed
  have regs: "filter is_MustRegister (new_calls s s') =
      map (\<lambda>x. MustRegister_call (handle s1 (fst x))) ?nvs"
    by (simp add: nc filter_MustRegister_both filter_concat_sets)
  have "length ?nvs = length (map fst r1)"
    using nm1 by (metis length_map)
  also have "\<dots> = card S"
    using r1(1,2) by (metis distinct_card list.set_map)
  finally have total: "length (filter is_MustRegister (new_calls s s')) = card S"
    by (simp add: regs)
  have thru: "\<exists>sk. UpdatePrometheusMetrics (take k ticks) s = Some sk
       \<and> gauges (conf sk) = gauges (conf s')
       \<and> filter is_MustRegister (new_calls s sk) = filter is_MustRegister (new_calls s s')"
    if "0 < k \<and> k \<le> length ticks" for k
  proof -
    from that obtain j where k: "k = Suc j" by (cases k) auto
    have "set (take j rest) \<subseteq> set rest" by (rule set_take_subset)
    from tail [OF this] obtain sk
      where rk: "UpdatePrometheusMetrics (take k ticks) s = Some sk"
        and gk: "gauges (conf sk) = gauges (conf s1)"
        and ck: "calls sk = calls s1 @ ?L (handle s1) (take j rest)"
      by (auto simp: tk k)
    have "new_calls s sk = ?E (handle s1) @ ?L (handle s1) (take j rest)"
      by (simp add: new_calls_def ck cl1)
    then have "filter is_MustRegister (new_calls s sk) =
        map (\<lambda>x. MustRegister_call (handle s1 (fst x))) ?nvs"
      by (simp add: filter_MustRegister_both filter_concat_sets)
    with rk gk g' regs show ?thesis by simp
  qed
  from ret cs dm counts total thru show ?thesis by blast
qed


theorem registration_once_per_name_witness:
  "gauges (conf (fresh_state [])) = Map.empty
   \<and> two_ticks \<noteq> []
   \<and> inj_on (external_name (conf (fresh_state []))) {''counter'', ''My.Gauge''}
   \<and> UpdatePrometheusMetrics two_ticks (fresh_state []) \<noteq> None
   \<and> count_MustRegister
        (handle (the (UpdatePrometheusMetrics two_ticks (fresh_state []))) ''counter'')
        (new_calls (fresh_state []) (the (UpdatePrometheusMetrics two_ticks (fresh_state [])))) = 1
   \<and> count_Set
        (handle (the (UpdatePrometheusMetrics two_ticks (fresh_state []))) ''counter'')
        (new_calls (fresh_state []) (the (UpdatePrometheusMetrics two_ticks (fresh_state [])))) = 2
   \<and> count_MustRegister
        (handle (the (UpdatePrometheusMetrics two_ticks (fresh_state []))) ''My.Gauge'')
        (new_calls (fresh_state []) (the (UpdatePrometheusMetrics two_ticks (fresh_state [])))) = 1
   \<and> count_Set
        (handle (the (UpdatePrometheusMetrics two_ticks (fresh_state []))) ''My.Gauge'')
        (new_calls (fresh_state []) (the (UpdatePrometheusMetrics two_ticks (fresh_state [])))) = 2
   \<and> length (filter is_MustRegister
        (new_calls (fresh_state []) (the (UpdatePrometheusMetrics two_ticks (fresh_state []))))) = 2
   \<and> dom (gauges (conf (the (UpdatePrometheusMetrics two_ticks (fresh_state []))))) =
        {''test_subsys_counter'', ''test_subsys_My.Gauge''}"
proof -
  let ?s = "fresh_state []"
  let ?S = "{''counter'', ''My.Gauge''}"
  have fresh: "gauges (conf ?s) = Map.empty"
    by (simp add: fresh_state_def)
  have ne: "two_ticks \<noteq> []"
    by (simp add: two_ticks_def)
  have names: "\<forall>r\<in>set two_ticks. distinct (map fst r) \<and> fst ` set r = ?S"
    by (auto simp: two_ticks_def)
  have conv: "\<forall>r\<in>set two_ticks. \<forall>(n, i)\<in>set r. snd (converter (conf ?s) n i) = None"
    by (simp add: two_ticks_def fresh_state_def DefaultMetricConverter_def)
  have inj: "inj_on (external_name (conf ?s)) ?S"
    by (simp add: fresh_state_def external_name_def gauge_opts_def fqName_def BuildFQName_def
          DefaultKeyNormalizer_def)
  have free: "\<forall>n\<in>?S. registrable (conf ?s) n"
    by (simp add: fresh_state_def registrable_def empty_registry_def)
  have k: "key_of (conf ?s) ` ?S = {''test_subsys_counter'', ''test_subsys_My.Gauge''}"
    by (simp add: fresh_state_def key_of_def)
  have c: "card ?S = 2" "length two_ticks = 2"
    by (simp_all add: two_ticks_def)
  from registration_once_per_name [OF fresh ne names conv inj free] obtain s'
    where r: "UpdatePrometheusMetrics two_ticks ?s = Some s'"
      and d: "dom (gauges (conf s')) = key_of (conf ?s) ` ?S"
      and n: "\<forall>n\<in>?S. count_MustRegister (handle s' n) (new_calls ?s s') = 1
               \<and> count_Set (handle s' n) (new_calls ?s s') = length two_ticks"
      and t: "length (filter is_MustRegister (new_calls ?s s')) = card ?S"
    by blast
  from n have "count_MustRegister (handle s' ''counter'') (new_calls ?s s') = 1"
    and "count_Set (handle s' ''counter'') (new_calls ?s s') = 2"
    and "count_MustRegister (handle s' ''My.Gauge'') (new_calls ?s s') = 1"
    and "count_Set (handle s' ''My.Gauge'') (new_calls ?s s') = 2"
    by (simp_all add: c)
  with fresh ne inj r d [unfolded k] t show ?thesis
    by (simp add: c)
qed

text \<open>
  C2, as stated, fails: the names \<open>a.b\<close> and \<open>a-b\<close> are distinct and both convert, yet
  the first pass of a fresh provider over them does not return, so neither name is
  set once per pass.
\<close>

theorem registration_collision_aborts:
  "distinct (map fst colliding_registry)
   \<and> snd (DefaultMetricConverter ''a.b'' (Iface ''*metrics.StandardCounter'' (Counter 1))) = None
   \<and> snd (DefaultMetricConverter ''a-b'' (Iface ''*metrics.StandardCounter'' (Counter 2))) = None
   \<and> UpdatePrometheusMetrics [colliding_registry] (fresh_state []) = None"
  by (simp add: pass_eval)

end
